theory Spec2Isabelle
  imports Complex_Main "HOL-Library.AList" "HOL-Library.Sublist"
begin

section \<open>Python values, exceptions and the NetworkX graph\<close>

text \<open>
  The values that end up as node and edge attributes: what RDKit, Biopython, DSSP and
  \<^verbatim>\<open>json.load\<close> hand to \<^verbatim>\<open>protein_molecule_graphs\<close>. Python floats are
  modelled as reals; the program copies them, and computes with them only in
  \<^verbatim>\<open>calculate_distance\<close> and \<^verbatim>\<open>GetBondLength\<close>. \<open>PPoint\<close> is RDKit's
  \<^verbatim>\<open>Point3D\<close>.
\<close>

datatype pyval =
    PNone
  | PBool bool
  | PInt int
  | PFloat real
  | PStr string
  | PList "pyval list"
  | PDict "(string \<times> pyval) list"
  | PPoint real real real

datatype exn =
    AttributeError
  | KeyError
  | IndexError
  | TypeError
  | ValueError
  | JSONDecodeError
  | OSError
  | LibraryError

type_synonym attrs = "string \<rightharpoonup> pyval"

text \<open>
  \<^verbatim>\<open>nx.Graph()\<close>: the node dictionary \<^verbatim>\<open>_node\<close> in insertion order, and the
  adjacency \<^verbatim>\<open>_adj[u][v]\<close>. \<^verbatim>\<open>add_edge\<close> stores one attribute dictionary under
  both \<^verbatim>\<open>_adj[u][v]\<close> and \<^verbatim>\<open>_adj[v][u]\<close>.
\<close>

record graph =
  nodes :: "(nat \<times> attrs) list"
  adj :: "nat \<times> nat \<Rightarrow> attrs option"

definition empty_graph :: graph where
  "empty_graph = \<lparr>nodes = [], adj = (\<lambda>_. None)\<rparr>"

definition node_data :: "graph \<Rightarrow> nat \<Rightarrow> attrs option" where
  "node_data G n = map_of (nodes G) n"

definition add_node :: "nat \<Rightarrow> attrs \<Rightarrow> graph \<Rightarrow> graph" where
  "add_node n a G =
     G\<lparr>nodes := AList.update n
        ((case map_of (nodes G) n of None \<Rightarrow> Map.empty | Some d \<Rightarrow> d) ++ a) (nodes G)\<rparr>"

definition touch_node :: "nat \<Rightarrow> graph \<Rightarrow> graph" where
  "touch_node n G =
     (case map_of (nodes G) n of
        None \<Rightarrow> G\<lparr>nodes := nodes G @ [(n, Map.empty)]\<rparr>
      | Some _ \<Rightarrow> G)"

definition add_edge :: "nat \<Rightarrow> nat \<Rightarrow> attrs \<Rightarrow> graph \<Rightarrow> graph" where
  "add_edge u v a G =
     (let G' = touch_node v (touch_node u G);
          datadict = (case adj G' (u, v) of None \<Rightarrow> Map.empty | Some d \<Rightarrow> d) ++ a
      in G'\<lparr>adj := (adj G')((u, v) \<mapsto> datadict, (v, u) \<mapsto> datadict)\<rparr>)"

text \<open>\<^verbatim>\<open>G.nodes[n][k] = v\<close>: a KeyError when \<open>n\<close> is not a node.\<close>

definition set_node_attr :: "nat \<Rightarrow> string \<Rightarrow> pyval \<Rightarrow> graph \<Rightarrow> exn + graph" where
  "set_node_attr n k v G =
     (case map_of (nodes G) n of
        None \<Rightarrow> Inl KeyError
      | Some d \<Rightarrow> Inr (G\<lparr>nodes := AList.update n (d(k \<mapsto> v)) (nodes G)\<rparr>))"

section \<open>What the parsers return\<close>

text \<open>
  An RDKit atom with its \<^verbatim>\<open>GetMonomerInfo()\<close> and its conformer position; \<^verbatim>\<open>GetIdx()\<close> is
  the atom's place in \<^verbatim>\<open>mol.GetAtoms()\<close>, and a bond's \<^verbatim>\<open>GetIdx()\<close> its place in
  \<^verbatim>\<open>mol.GetBonds()\<close>.
\<close>

record rd_atom =
  serial_number :: int
  atomic_num :: int
  position :: "real \<times> real \<times> real"
  degree :: int
  is_aromatic :: bool
  residue_number :: int
  residue_name :: string

record rd_bond =
  begin_atom :: nat
  end_atom :: nat
  bond_type_as_double :: real

record mol =
  atoms :: "rd_atom list"
  bonds :: "rd_bond list"

text \<open>
  A Biopython structure: models of chains of residues of atoms. \<open>bp_id\<close> is the key under
  which the residue holds the atom (\<^verbatim>\<open>residue['CA']\<close>), \<open>resseq\<close> is
  \<^verbatim>\<open>residue.get_id()[1]\<close>.
\<close>

record bp_atom =
  bp_serial :: int
  bp_id :: string
  bp_fullname :: string
  bp_bfactor :: real

record bp_residue =
  resseq :: int
  child_atoms :: "bp_atom list"

type_synonym bp_chain = "bp_residue list"
type_synonym bp_model = "bp_chain list"
type_synonym bp_structure = "bp_model list"

definition all_residues :: "bp_structure \<Rightarrow> bp_residue list" where
  "all_residues s = concat (concat s)"

definition all_atoms :: "bp_structure \<Rightarrow> bp_atom list" where
  "all_atoms s = concat (map child_atoms (all_residues s))"

text \<open>\<^verbatim>\<open>str.strip()\<close> on the ASCII text of a PDB file.\<close>

definition is_space :: "char \<Rightarrow> bool" where
  "is_space c = (c \<in> set [CHR '' '', CHR 0x09, CHR 0x0A, CHR 0x0B, CHR 0x0C, CHR 0x0D,
                           CHR 0x1C, CHR 0x1D, CHR 0x1E, CHR 0x1F])"

definition strip :: "string \<Rightarrow> string" where
  "strip s = rev (dropWhile is_space (rev (dropWhile is_space s)))"

section \<open>Nodes, bonds and the backbone\<close>

definition serial_atom_dict :: "bp_structure \<Rightarrow> (int \<rightharpoonup> string)" where
  "serial_atom_dict s =
     foldl (\<lambda>d a. d(bp_serial a \<mapsto> strip (bp_fullname a))) Map.empty (all_atoms s)"

definition name_val :: "string option \<Rightarrow> pyval" where
  "name_val n = (case n of None \<Rightarrow> PNone | Some s \<Rightarrow> PStr s)"

definition point_val :: "real \<times> real \<times> real \<Rightarrow> pyval" where
  "point_val p = (case p of (x, y, z) \<Rightarrow> PPoint x y z)"

definition atom_attrs :: "(int \<rightharpoonup> string) \<Rightarrow> rd_atom \<Rightarrow> attrs" where
  "atom_attrs sad a =
     [''atom_name'' \<mapsto> name_val (sad (serial_number a)),
      ''atomic_number'' \<mapsto> PInt (atomic_num a),
      ''atom_coords'' \<mapsto> point_val (position a),
      ''degree'' \<mapsto> PInt (degree a),
      ''aromatic'' \<mapsto> PBool (is_aromatic a),
      ''residue_number'' \<mapsto> PInt (residue_number a),
      ''residue_name'' \<mapsto> PStr (residue_name a)]"

text \<open>
  Lines 51-66: one \<^verbatim>\<open>add_node\<close> per atom, and \<^verbatim>\<open>residue_to_ca_atom\<close>, a dictionary in
  insertion order, for the atoms named CA.
\<close>

fun add_atoms ::
  "(int \<rightharpoonup> string) \<Rightarrow> (nat \<times> rd_atom) list \<Rightarrow> graph \<times> (int \<times> nat) list
     \<Rightarrow> graph \<times> (int \<times> nat) list" where
  "add_atoms sad [] acc = acc"
| "add_atoms sad ((atom_idx, a) # rest) (G, ca) =
     add_atoms sad rest
       (add_node atom_idx (atom_attrs sad a) G,
        if sad (serial_number a) = Some ''CA''
        then AList.update (residue_number a) atom_idx ca else ca)"

definition euclid :: "real \<times> real \<times> real \<Rightarrow> real \<times> real \<times> real \<Rightarrow> real" where
  "euclid p q =
     (case p of (x1, y1, z1) \<Rightarrow> case q of (x2, y2, z2) \<Rightarrow>
        sqrt ((x1 - x2)\<^sup>2 + (y1 - y2)\<^sup>2 + (z1 - z2)\<^sup>2))"

text \<open>
  \<^verbatim>\<open>rdMolTransforms.GetBondLength(conf, i, j)\<close>; RDKit refuses an index that is not an
  atom of the conformer.
\<close>

definition GetBondLength :: "rd_atom list \<Rightarrow> nat \<Rightarrow> nat \<Rightarrow> exn + real" where
  "GetBondLength as i j =
     (if i < length as \<and> j < length as
      then Inr (euclid (position (as ! i)) (position (as ! j)))
      else Inl ValueError)"

definition bond_attrs :: "nat \<Rightarrow> rd_bond \<Rightarrow> real \<Rightarrow> attrs" where
  "bond_attrs bond_idx b len =
     [''bond_idx'' \<mapsto> PInt (int bond_idx),
      ''bond_order'' \<mapsto> PFloat (bond_type_as_double b),
      ''bond_length'' \<mapsto> PFloat len]"

fun add_bonds :: "rd_atom list \<Rightarrow> (nat \<times> rd_bond) list \<Rightarrow> graph \<Rightarrow> exn + graph" where
  "add_bonds as [] G = Inr G"
| "add_bonds as ((bond_idx, b) # rest) G =
     (case GetBondLength as (begin_atom b) (end_atom b) of
        Inl e \<Rightarrow> Inl e
      | Inr len \<Rightarrow>
          add_bonds as rest
            (add_edge (begin_atom b) (end_atom b) (bond_attrs bond_idx b len) G))"

text \<open>Lines 79-82: the distance between the coordinates stored on two nodes.\<close>

definition node_coords :: "graph \<Rightarrow> nat \<Rightarrow> exn + real \<times> real \<times> real" where
  "node_coords G n =
     (case map_of (nodes G) n of
        None \<Rightarrow> Inl KeyError
      | Some d \<Rightarrow>
          (case d ''atom_coords'' of
             None \<Rightarrow> Inl KeyError
           | Some (PPoint x y z) \<Rightarrow> Inr (x, y, z)
           | Some _ \<Rightarrow> Inl TypeError))"

definition calculate_distance :: "nat \<Rightarrow> nat \<Rightarrow> graph \<Rightarrow> exn + real" where
  "calculate_distance atom1_idx atom2_idx G =
     (case node_coords G atom1_idx of
        Inl e \<Rightarrow> Inl e
      | Inr pos1 \<Rightarrow>
          (case node_coords G atom2_idx of
             Inl e \<Rightarrow> Inl e
           | Inr pos2 \<Rightarrow> Inr (euclid pos1 pos2)))"

definition backbone_attrs :: "real \<Rightarrow> attrs" where
  "backbone_attrs len =
     [''bond_idx'' \<mapsto> PInt 0, ''bond_order'' \<mapsto> PInt 0, ''bond_length'' \<mapsto> PFloat len]"

text \<open>
  Lines 85-90: the loop over \<^verbatim>\<open>residue_to_ca_atom.items()\<close>; the first argument is the
  whole dictionary, the second what is left of the iteration.
\<close>

fun link_backbone :: "(int \<times> nat) list \<Rightarrow> (int \<times> nat) list \<Rightarrow> graph \<Rightarrow> exn + graph" where
  "link_backbone ca [] G = Inr G"
| "link_backbone ca ((res_num, ca_idx) # rest) G =
     (case map_of ca (res_num + 1) of
        None \<Rightarrow> link_backbone ca rest G
      | Some next_ca_idx \<Rightarrow>
          (case calculate_distance ca_idx next_ca_idx G of
             Inl e \<Rightarrow> Inl e
           | Inr len \<Rightarrow>
               link_backbone ca rest (add_edge ca_idx next_ca_idx (backbone_attrs len) G)))"

text \<open>Lines 33-76, then lines 85-90.\<close>

definition assemble :: "mol \<Rightarrow> bp_structure \<Rightarrow> exn + graph \<times> (int \<times> nat) list" where
  "assemble m s =
     (case add_atoms (serial_atom_dict s) (enumerate 0 (atoms m)) (empty_graph, []) of
        (G, ca) \<Rightarrow>
          (case add_bonds (atoms m) (enumerate 0 (bonds m)) G of
             Inl e \<Rightarrow> Inl e
           | Inr G' \<Rightarrow> Inr (G', ca)))"

definition backbone :: "mol \<Rightarrow> bp_structure \<Rightarrow> exn + graph \<times> (int \<times> nat) list" where
  "backbone m s =
     (case assemble m s of
        Inl e \<Rightarrow> Inl e
      | Inr (G, ca) \<Rightarrow>
          (case link_backbone ca ca G of
             Inl e \<Rightarrow> Inl e
           | Inr G' \<Rightarrow> Inr (G', ca)))"

text \<open>The dictionary \<^verbatim>\<open>residue_to_ca_atom\<close> and the atoms' conformer positions.\<close>

definition residue_to_ca_atom :: "mol \<Rightarrow> bp_structure \<Rightarrow> (int \<times> nat) list" where
  "residue_to_ca_atom m s =
     snd (add_atoms (serial_atom_dict s) (enumerate 0 (atoms m)) (empty_graph, []))"

definition GetAtomPosition :: "mol \<Rightarrow> nat \<Rightarrow> real \<times> real \<times> real" where
  "GetAtomPosition m i = position (atoms m ! i)"

section \<open>pLDDT\<close>

text \<open>\<^verbatim>\<open>residue['CA']\<close>: Biopython raises KeyError when the residue has no such child.\<close>

definition residue_getitem :: "bp_residue \<Rightarrow> string \<Rightarrow> exn + bp_atom" where
  "residue_getitem res k =
     (case find (\<lambda>a. bp_id a = k) (child_atoms res) of
        None \<Rightarrow> Inl KeyError
      | Some a \<Rightarrow> Inr a)"

text \<open>Lines 94-100.\<close>

fun build_plddt_dict :: "bp_residue list \<Rightarrow> (int \<rightharpoonup> real) \<Rightarrow> exn + (int \<rightharpoonup> real)" where
  "build_plddt_dict [] d = Inr d"
| "build_plddt_dict (res # rest) d =
     (case residue_getitem res ''CA'' of
        Inl e \<Rightarrow> Inl e
      | Inr a \<Rightarrow> build_plddt_dict rest (d(resseq res \<mapsto> bp_bfactor a)))"

definition plddt_dict :: "bp_structure \<Rightarrow> exn + (int \<rightharpoonup> real)" where
  "plddt_dict s = build_plddt_dict (all_residues s) Map.empty"

definition plddt_val :: "real option \<Rightarrow> pyval" where
  "plddt_val p = (case p of None \<Rightarrow> PNone | Some b \<Rightarrow> PFloat b)"

text \<open>Lines 103-106.\<close>

fun annotate_plddt :: "(int \<rightharpoonup> real) \<Rightarrow> (nat \<times> rd_atom) list \<Rightarrow> graph \<Rightarrow> exn + graph" where
  "annotate_plddt pd [] G = Inr G"
| "annotate_plddt pd ((atom_idx, a) # rest) G =
     (case set_node_attr atom_idx ''plddt'' (plddt_val (pd (residue_number a))) G of
        Inl e \<Rightarrow> Inl e
      | Inr G' \<Rightarrow> annotate_plddt pd rest G')"

definition add_plddt :: "bp_structure \<Rightarrow> rd_atom list \<Rightarrow> graph \<Rightarrow> exn + graph" where
  "add_plddt s as G =
     (case plddt_dict s of
        Inl e \<Rightarrow> Inl e
      | Inr pd \<Rightarrow> annotate_plddt pd (enumerate 0 as) G)"

section \<open>PAE\<close>

text \<open>
  \<^verbatim>\<open>len(v)\<close>, \<^verbatim>\<open>v[i]\<close>, \<^verbatim>\<open>k in v\<close> and \<^verbatim>\<open>v[k]\<close> on the values \<^verbatim>\<open>json.load\<close> returns:
  \<open>PList\<close>, \<open>PDict\<close> (its keys are strings, each once), \<open>PStr\<close>, numbers, booleans
  and \<open>PNone\<close>.
\<close>

definition py_len :: "pyval \<Rightarrow> exn + nat" where
  "py_len v =
     (case v of
        PList xs \<Rightarrow> Inr (length xs)
      | PStr s \<Rightarrow> Inr (length s)
      | PDict kvs \<Rightarrow> Inr (length kvs)
      | _ \<Rightarrow> Inl TypeError)"

definition py_getitem :: "pyval \<Rightarrow> nat \<Rightarrow> exn + pyval" where
  "py_getitem v i =
     (case v of
        PList xs \<Rightarrow> (if i < length xs then Inr (xs ! i) else Inl IndexError)
      | PStr s \<Rightarrow> (if i < length s then Inr (PStr [s ! i]) else Inl IndexError)
      | PDict kvs \<Rightarrow> Inl KeyError
      | _ \<Rightarrow> Inl TypeError)"

definition py_contains :: "string \<Rightarrow> pyval \<Rightarrow> exn + bool" where
  "py_contains k v =
     (case v of
        PDict kvs \<Rightarrow> Inr (k \<in> fst ` set kvs)
      | PList xs \<Rightarrow> Inr (PStr k \<in> set xs)
      | PStr s \<Rightarrow> Inr (sublist k s)
      | _ \<Rightarrow> Inl TypeError)"

definition py_getitem_str :: "pyval \<Rightarrow> string \<Rightarrow> exn + pyval" where
  "py_getitem_str v k =
     (case v of
        PDict kvs \<Rightarrow> (case map_of kvs k of None \<Rightarrow> Inl KeyError | Some x \<Rightarrow> Inr x)
      | _ \<Rightarrow> Inl TypeError)"

text \<open>\<^verbatim>\<open>pae_matrix[i][j]\<close>.\<close>

definition pae_entry :: "pyval \<Rightarrow> nat \<Rightarrow> nat \<Rightarrow> exn + pyval" where
  "pae_entry pae_matrix i j =
     (case py_getitem pae_matrix i of
        Inl e \<Rightarrow> Inl e
      | Inr row \<Rightarrow> py_getitem row j)"

text \<open>Lines 120-127, the loop over \<open>j\<close> for one \<open>i\<close>.\<close>

fun pae_row :: "(int \<times> nat) list \<Rightarrow> pyval \<Rightarrow> nat \<Rightarrow> nat list \<Rightarrow> graph \<Rightarrow> exn + graph" where
  "pae_row ca pae_matrix i [] G = Inr G"
| "pae_row ca pae_matrix i (j # js) G =
     (if i \<noteq> j then
        (case pae_entry pae_matrix i j of
           Inl e \<Rightarrow> Inl e
         | Inr pae \<Rightarrow>
             (case map_of ca (int i + 1) of
                None \<Rightarrow> pae_row ca pae_matrix i js G
              | Some ca_atom_i \<Rightarrow>
                  (case map_of ca (int j + 1) of
                     None \<Rightarrow> pae_row ca pae_matrix i js G
                   | Some ca_atom_j \<Rightarrow>
                       pae_row ca pae_matrix i js
                         (add_edge ca_atom_i ca_atom_j [''pae'' \<mapsto> pae] G))))
      else pae_row ca pae_matrix i js G)"

text \<open>Lines 119-127, the loop over \<open>i\<close>.\<close>

fun pae_rows :: "(int \<times> nat) list \<Rightarrow> pyval \<Rightarrow> nat list \<Rightarrow> graph \<Rightarrow> exn + graph" where
  "pae_rows ca pae_matrix [] G = Inr G"
| "pae_rows ca pae_matrix (i # is) G =
     (case py_getitem pae_matrix i of
        Inl e \<Rightarrow> Inl e
      | Inr row \<Rightarrow>
          (case py_len row of
             Inl e \<Rightarrow> Inl e
           | Inr n \<Rightarrow>
               (case pae_row ca pae_matrix i [0..<n] G of
                  Inl e \<Rightarrow> Inl e
                | Inr G' \<Rightarrow> pae_rows ca pae_matrix is G')))"

text \<open>Lines 114-117: the matrix, or the exception raised on the way to it.\<close>

definition get_pae_matrix :: "pyval \<Rightarrow> exn + pyval" where
  "get_pae_matrix pae_data =
     (case py_getitem pae_data 0 of
        Inl e \<Rightarrow> Inl e
      | Inr first \<Rightarrow>
          (case py_contains ''predicted_aligned_error'' first of
             Inl e \<Rightarrow> Inl e
           | Inr present \<Rightarrow>
               if \<not> present then Inl ValueError
               else py_getitem_str first ''predicted_aligned_error''))"

text \<open>
  Lines 111-127, the body of the \<^verbatim>\<open>try\<close>; the argument \<open>loaded\<close> is what \<^verbatim>\<open>open\<close> and
  \<^verbatim>\<open>json.load\<close> give on the protein's JSON file.
\<close>

definition add_pae :: "exn + pyval \<Rightarrow> (int \<times> nat) list \<Rightarrow> graph \<Rightarrow> exn + graph" where
  "add_pae loaded ca G =
     (case loaded of
        Inl e \<Rightarrow> Inl e
      | Inr pae_data \<Rightarrow>
          (case get_pae_matrix pae_data of
             Inl e \<Rightarrow> Inl e
           | Inr pae_matrix \<Rightarrow>
               (case py_len pae_matrix of
                  Inl e \<Rightarrow> Inl e
                | Inr n \<Rightarrow> pae_rows ca pae_matrix [0..<n] G)))"

text \<open>The exception that lines 111-117 raise on the protein's JSON file, if any.\<close>

definition pae_file_error :: "exn + pyval \<Rightarrow> exn option" where
  "pae_file_error loaded =
     (case loaded of
        Inl e \<Rightarrow> Some e
      | Inr pae_data \<Rightarrow>
          (case get_pae_matrix pae_data of Inl e \<Rightarrow> Some e | Inr _ \<Rightarrow> None))"

text \<open>What the job prints.\<close>

datatype message =
    AlreadyExists string
  | CannotDecodeJSON string
  | ValueErrorInFile string
  | UnexpectedError string exn
  | DsspFailed string exn

text \<open>Lines 129-137: the three handlers, in the order Python tries them.\<close>

definition pae_handler :: "string \<Rightarrow> exn \<Rightarrow> message" where
  "pae_handler file_name e =
     (if e = JSONDecodeError then CannotDecodeJSON file_name
      else if e = ValueError then ValueErrorInFile file_name
      else UnexpectedError file_name e)"

text \<open>
  Lines 26-127 with \<^verbatim>\<open>include_pae\<close> set: the graph when the PAE loop has ended, and the
  \<^verbatim>\<open>pae\<close> attribute of one of its edges.
\<close>

definition graph_after_pae :: "mol \<Rightarrow> bp_structure \<Rightarrow> exn + pyval \<Rightarrow> exn + graph" where
  "graph_after_pae m s loaded =
     (case backbone m s of
        Inl e \<Rightarrow> Inl e
      | Inr (G3, ca) \<Rightarrow>
          (case add_plddt s (atoms m) G3 of
             Inl e \<Rightarrow> Inl e
           | Inr G4 \<Rightarrow> add_pae loaded ca G4))"

definition pae_of_edge :: "mol \<Rightarrow> bp_structure \<Rightarrow> exn + pyval \<Rightarrow> nat \<Rightarrow> nat \<Rightarrow> pyval option" where
  "pae_of_edge m s loaded u v =
     (case graph_after_pae m s loaded of
        Inl e \<Rightarrow> None
      | Inr G \<Rightarrow> (case adj G (u, v) of None \<Rightarrow> None | Some d \<Rightarrow> d ''pae''))"

section \<open>DSSP\<close>

text \<open>The tuple Biopython's \<^verbatim>\<open>DSSP\<close> yields for a residue, unpacked at lines 161-162.\<close>

record dssp_res =
  dssp_index :: int
  aa :: pyval
  ss :: pyval
  exposure :: pyval
  phi :: pyval
  psi :: pyval
  NH_O_1_relidx :: pyval
  NH_O_1_energy :: pyval
  O_NH_1_relidx :: pyval
  O_NH_1_energy :: pyval
  NH_O_2_relidx :: pyval
  NH_O_2_energy :: pyval
  O_NH_2_relidx :: pyval
  O_NH_2_energy :: pyval

text \<open>Lines 147-151: \<^verbatim>\<open>dssp_dict[res[0]] = res\<close>.\<close>

definition run_dssp :: "dssp_res list \<Rightarrow> (int \<rightharpoonup> dssp_res)" where
  "run_dssp dssp = foldl (\<lambda>d res. d(dssp_index res \<mapsto> res)) Map.empty dssp"

text \<open>Lines 165-176.\<close>

definition dssp_attrs :: "dssp_res \<Rightarrow> attrs" where
  "dssp_attrs r =
     [''secondary_structure'' \<mapsto> ss r,
      ''exposure'' \<mapsto> exposure r,
      ''phi'' \<mapsto> phi r,
      ''psi'' \<mapsto> psi r,
      ''NH_O_1_relidx'' \<mapsto> NH_O_1_relidx r,
      ''NH_O_1_energy'' \<mapsto> NH_O_1_energy r,
      ''O_NH_1_relidx'' \<mapsto> O_NH_1_relidx r,
      ''O_NH_1_energy'' \<mapsto> O_NH_1_energy r,
      ''NH_O_2_relidx'' \<mapsto> NH_O_2_relidx r,
      ''NH_O_2_energy'' \<mapsto> NH_O_2_energy r,
      ''O_NH_2_relidx'' \<mapsto> O_NH_2_relidx r,
      ''O_NH_2_energy'' \<mapsto> O_NH_2_energy r]"

definition dssp_fields :: "string list" where
  "dssp_fields =
     [''secondary_structure'', ''exposure'', ''phi'', ''psi'',
      ''NH_O_1_relidx'', ''NH_O_1_energy'', ''O_NH_1_relidx'', ''O_NH_1_energy'',
      ''NH_O_2_relidx'', ''NH_O_2_energy'', ''O_NH_2_relidx'', ''O_NH_2_energy'']"

text \<open>
  \<^verbatim>\<open>x in dssp_data\<close> for a dictionary with integer keys: the integer \<open>x\<close> is equal to, if
  any; a list or a dictionary cannot be hashed.
\<close>

definition int_key :: "pyval \<Rightarrow> exn + int option" where
  "int_key v =
     (case v of
        PInt r \<Rightarrow> Inr (Some r)
      | PBool b \<Rightarrow> Inr (Some (if b then 1 else 0))
      | PFloat x \<Rightarrow> Inr (if x = of_int \<lfloor>x\<rfloor> then Some \<lfloor>x\<rfloor> else None)
      | PList _ \<Rightarrow> Inl TypeError
      | PDict _ \<Rightarrow> Inl TypeError
      | _ \<Rightarrow> Inr None)"

text \<open>Lines 156-176, the loop over \<^verbatim>\<open>G.nodes(data=True)\<close>.\<close>

fun enrich_nodes :: "(int \<rightharpoonup> dssp_res) \<Rightarrow> (nat \<times> attrs) list \<Rightarrow> exn + (nat \<times> attrs) list" where
  "enrich_nodes dssp_data [] = Inr []"
| "enrich_nodes dssp_data ((n, data) # rest) =
     (case data ''residue_number'' of
        None \<Rightarrow> Inl KeyError
      | Some rv \<Rightarrow>
          (case int_key rv of
             Inl e \<Rightarrow> Inl e
           | Inr k \<Rightarrow>
               (case enrich_nodes dssp_data rest of
                  Inl e \<Rightarrow> Inl e
                | Inr rest' \<Rightarrow>
                    Inr ((n, (case (case k of None \<Rightarrow> None | Some r \<Rightarrow> dssp_data r) of
                                None \<Rightarrow> data
                              | Some dssp_node_data \<Rightarrow> data ++ dssp_attrs dssp_node_data))
                         # rest'))))"

text \<open>
  Lines 153-176, the body of the \<^verbatim>\<open>try\<close>; \<open>analyzer\<close> is what parsing the file again and
  running \<^verbatim>\<open>DSSP(model, pdb_file)\<close> give: an exception or the residues' tuples.
\<close>

definition add_dssp :: "exn + dssp_res list \<Rightarrow> graph \<Rightarrow> exn + graph" where
  "add_dssp analyzer G =
     (case analyzer of
        Inl e \<Rightarrow> Inl e
      | Inr dssp \<Rightarrow>
          (case enrich_nodes (run_dssp dssp) (nodes G) of
             Inl e \<Rightarrow> Inl e
           | Inr ns \<Rightarrow> Inr (G\<lparr>nodes := ns\<rparr>)))"

text \<open>
  Lines 26-176 without the PAE stage (which leaves the nodes as they are): the graph when
  the DSSP loop has ended, and the attribute names on one of its nodes.
\<close>

definition graph_after_dssp :: "mol \<Rightarrow> bp_structure \<Rightarrow> exn + dssp_res list \<Rightarrow> exn + graph" where
  "graph_after_dssp m s analyzer =
     (case backbone m s of
        Inl e \<Rightarrow> Inl e
      | Inr (G3, ca) \<Rightarrow>
          (case add_plddt s (atoms m) G3 of
             Inl e \<Rightarrow> Inl e
           | Inr G4 \<Rightarrow> add_dssp analyzer G4))"

definition node_keys_after_dssp ::
  "mol \<Rightarrow> bp_structure \<Rightarrow> exn + dssp_res list \<Rightarrow> nat \<Rightarrow> string set" where
  "node_keys_after_dssp m s analyzer i =
     (case graph_after_dssp m s analyzer of
        Inl e \<Rightarrow> {}
      | Inr G \<Rightarrow> (case map_of (nodes G) i of None \<Rightarrow> {} | Some d \<Rightarrow> dom d))"

section \<open>Serialising, the job and the batch\<close>

text \<open>
  Lines 185-188; \<open>fs\<close> is Python's formatting of a float inside an f-string, a parameter
  of the model.
\<close>

fun coords_to_str :: "(real \<Rightarrow> string) \<Rightarrow> (nat \<times> attrs) list \<Rightarrow> exn + (nat \<times> attrs) list" where
  "coords_to_str fs [] = Inr []"
| "coords_to_str fs ((n, data) # rest) =
     (case data ''atom_coords'' of
        None \<Rightarrow> Inl KeyError
      | Some (PPoint x y z) \<Rightarrow>
          (case coords_to_str fs rest of
             Inl e \<Rightarrow> Inl e
           | Inr rest' \<Rightarrow>
               Inr ((n, data(''atom_coords'' \<mapsto> PStr (fs x @ '','' @ fs y @ '','' @ fs z)))
                    # rest'))
      | Some _ \<Rightarrow> Inl AttributeError)"

definition stringify_coords :: "(real \<Rightarrow> string) \<Rightarrow> graph \<Rightarrow> exn + graph" where
  "stringify_coords fs G =
     (case coords_to_str fs (nodes G) of
        Inl e \<Rightarrow> Inl e
      | Inr ns \<Rightarrow> Inr (G\<lparr>nodes := ns\<rparr>))"

text \<open>
  What the libraries return on one protein's files, \<^verbatim>\<open>file_name + '.pdb'\<close> and
  \<^verbatim>\<open>file_name + '.json'\<close> in the input directory. \<^verbatim>\<open>Chem.MolFromPDBFile\<close> returns
  \<^verbatim>\<open>None\<close> on a file it cannot parse.
\<close>

record protein_files =
  MolFromPDBFile :: "mol option"
  get_structure :: "exn + bp_structure"
  json_load :: "exn + pyval"
  DSSP :: "exn + dssp_res list"

datatype outcome = Raised exn | Aborted message | Built graph

text \<open>
  Lines 26-188 of \<^verbatim>\<open>protein_molecule_graphs\<close>: an exception that leaves the function, a
  handler that prints and returns, or the graph that line 192 pickles.
\<close>

definition build_graph :: "(real \<Rightarrow> string) \<Rightarrow> protein_files \<Rightarrow> string \<Rightarrow> bool \<Rightarrow> outcome" where
  "build_graph fs files file_name include_pae =
     (case MolFromPDBFile files of
        None \<Rightarrow> Raised AttributeError
      | Some m \<Rightarrow>
     (case get_structure files of
        Inl e \<Rightarrow> Raised e
      | Inr s \<Rightarrow>
     (case backbone m s of
        Inl e \<Rightarrow> Raised e
      | Inr (G3, ca) \<Rightarrow>
     (case add_plddt s (atoms m) G3 of
        Inl e \<Rightarrow> Raised e
      | Inr G4 \<Rightarrow>
     (case (if include_pae then add_pae (json_load files) ca G4 else Inr G4) of
        Inl e \<Rightarrow> Aborted (pae_handler file_name e)
      | Inr G5 \<Rightarrow>
     (case add_dssp (DSSP files) G5 of
        Inl e \<Rightarrow> Aborted (DsspFailed file_name e)
      | Inr G6 \<Rightarrow>
     (case stringify_coords fs G6 of
        Inl e \<Rightarrow> Raised e
      | Inr G7 \<Rightarrow> Built G7)))))))"

text \<open>
  The input directory as the batch sees it, and the output directory with what was
  printed. A file of the output directory is a pickled graph or something else.
\<close>

record world =
  listdir :: "string list"
  inputs :: "string \<Rightarrow> protein_files"
  float_str :: "real \<Rightarrow> string"

datatype artifact = Pickle graph | OtherFile

record state =
  output_dir :: "string \<rightharpoonup> artifact"
  printed :: "message list"

definition endswith :: "string \<Rightarrow> string \<Rightarrow> bool" where
  "endswith s suf = (length suf \<le> length s \<and> drop (length s - length suf) s = suf)"

text \<open>\<^verbatim>\<open>file_name.split("/")[-1]\<close>.\<close>

definition last_component :: "string \<Rightarrow> string" where
  "last_component f = rev (takeWhile (\<lambda>c. c \<noteq> CHR ''/'') (rev f))"

definition output_file_name :: "string \<Rightarrow> string" where
  "output_file_name file_name = last_component file_name @ ''.pkl''"

text \<open>
  \<^verbatim>\<open>os.path.splitext(file)[0]\<close> for a name \<^verbatim>\<open>os.listdir\<close> returns (no separator in it): the
  name up to its last dot, or all of it when there is no dot or only dots before the last.
\<close>

definition splitext_root :: "string \<Rightarrow> string" where
  "splitext_root f =
     (case dropWhile (\<lambda>c. c \<noteq> CHR ''.'') (rev f) of
        [] \<Rightarrow> f
      | _ # r \<Rightarrow> if \<forall>c \<in> set r. c = CHR ''.'' then f else rev r)"

definition say :: "message \<Rightarrow> state \<Rightarrow> state" where
  "say msg st = st\<lparr>printed := printed st @ [msg]\<rparr>"

text \<open>
  \<^verbatim>\<open>protein_molecule_graphs\<close>: the exception that leaves it, if any, and the state it
  leaves behind.
\<close>

definition protein_molecule_graphs ::
  "world \<Rightarrow> string \<Rightarrow> bool \<Rightarrow> state \<Rightarrow> exn option \<times> state" where
  "protein_molecule_graphs w file_name include_pae st =
     (if output_dir st (output_file_name file_name) \<noteq> None
      then (None, say (AlreadyExists (output_file_name file_name)) st)
      else
        (case build_graph (float_str w) (inputs w file_name) file_name include_pae of
           Raised e \<Rightarrow> (Some e, st)
         | Aborted msg \<Rightarrow> (None, say msg st)
         | Built G \<Rightarrow>
             (None, st\<lparr>output_dir := (output_dir st)(output_file_name file_name \<mapsto> Pickle G)\<rparr>)))"

definition process_file_wrapper ::
  "world \<Rightarrow> string \<times> bool \<Rightarrow> state \<Rightarrow> exn option \<times> state" where
  "process_file_wrapper w args st =
     (case args of (file_name, include_pae) \<Rightarrow> protein_molecule_graphs w file_name include_pae st)"

text \<open>Lines 202-215.\<close>

definition processed :: "state \<Rightarrow> string \<Rightarrow> bool" where
  "processed st f = (output_dir st f \<noteq> None \<and> endswith f ''.pkl'')"

definition tasks :: "world \<Rightarrow> bool \<Rightarrow> state \<Rightarrow> (string \<times> bool) list" where
  "tasks w include_pae st =
     map (\<lambda>file. (splitext_root file, include_pae))
       (filter (\<lambda>file. endswith file ''.pdb'' \<and> \<not> processed st (splitext_root file @ ''.pkl''))
          (listdir w))"

text \<open>
  Lines 218-221 with the jobs run one after the other in the order of \<open>tasks\<close>:
  \<^verbatim>\<open>executor.map\<close> hands the results back in that order and raises a job's exception
  where its result is due, which ends \<^verbatim>\<open>alpha_nx\<close> with that exception.
\<close>

fun run_tasks :: "world \<Rightarrow> (string \<times> bool) list \<Rightarrow> state \<Rightarrow> exn + state" where
  "run_tasks w [] st = Inr st"
| "run_tasks w (args # rest) st =
     (case process_file_wrapper w args st of
        (Some e, _) \<Rightarrow> Inl e
      | (None, st') \<Rightarrow> run_tasks w rest st')"

definition alpha_nx :: "world \<Rightarrow> bool \<Rightarrow> state \<Rightarrow> exn + state" where
  "alpha_nx w include_pae st = run_tasks w (tasks w include_pae st) st"

section \<open>A two-residue protein\<close>

text \<open>
  Two atoms named CA, of residues 1 and 2, at indices 0 and 1; the second residue is also
  given without its CA atom.
\<close>

definition ex_mol :: mol where
  "ex_mol =
     \<lparr>atoms =
        [\<lparr>serial_number = 1, atomic_num = 6, position = (0, 0, 0), degree = 1,
          is_aromatic = False, residue_number = 1, residue_name = ''ALA''\<rparr>,
         \<lparr>serial_number = 2, atomic_num = 6, position = (3, 4, 0), degree = 1,
          is_aromatic = False, residue_number = 2, residue_name = ''GLY''\<rparr>],
      bonds = []\<rparr>"

definition ex_structure :: bp_structure where
  "ex_structure =
     [[[\<lparr>resseq = 1,
         child_atoms = [\<lparr>bp_serial = 1, bp_id = ''CA'', bp_fullname = '' CA '', bp_bfactor = 90\<rparr>]\<rparr>,
        \<lparr>resseq = 2,
         child_atoms = [\<lparr>bp_serial = 2, bp_id = ''CA'', bp_fullname = '' CA '', bp_bfactor = 70\<rparr>]\<rparr>]]]"

definition ex_structure_no_ca :: bp_structure where
  "ex_structure_no_ca =
     [[[\<lparr>resseq = 1,
         child_atoms = [\<lparr>bp_serial = 1, bp_id = ''CA'', bp_fullname = '' CA '', bp_bfactor = 90\<rparr>]\<rparr>,
        \<lparr>resseq = 2,
         child_atoms = [\<lparr>bp_serial = 2, bp_id = ''N'', bp_fullname = '' N  '', bp_bfactor = 70\<rparr>]\<rparr>]]]"

text \<open>
  The other files of the protein: a PAE matrix that is not symmetric, the DSSP residues, and
  the variants of the input in which one of the files is bad.
\<close>

definition ex_float_str :: "real \<Rightarrow> string" where
  "ex_float_str x = (if x = 0 then ''0.0'' else if x = 3 then ''3.0'' else ''4.0'')"

definition ex_matrix :: pyval where
  "ex_matrix = PList [PList [PInt 0, PFloat 1.5], PList [PFloat 2.5, PInt 0]]"

definition ex_pae :: pyval where
  "ex_pae = PList [PDict [(''predicted_aligned_error'', ex_matrix)]]"

definition ex_dssp_res :: "int \<Rightarrow> dssp_res" where
  "ex_dssp_res k =
     \<lparr>dssp_index = k, aa = PStr ''A'', ss = PStr ''H'', exposure = PFloat 0.5,
      phi = PFloat (-60), psi = PFloat (-45),
      NH_O_1_relidx = PInt (-4), NH_O_1_energy = PFloat (-2.1),
      O_NH_1_relidx = PInt 4, O_NH_1_energy = PFloat (-1.9),
      NH_O_2_relidx = PInt 0, NH_O_2_energy = PFloat 0,
      O_NH_2_relidx = PInt 0, O_NH_2_energy = PFloat 0\<rparr>"

definition ex_files :: protein_files where
  "ex_files =
     \<lparr>MolFromPDBFile = Some ex_mol, get_structure = Inr ex_structure,
      json_load = Inr ex_pae, DSSP = Inr [ex_dssp_res 1]\<rparr>"

definition ex_files_no_ca :: protein_files where
  "ex_files_no_ca = ex_files\<lparr>get_structure := Inr ex_structure_no_ca\<rparr>"

definition ex_files_unparsable :: protein_files where
  "ex_files_unparsable = ex_files\<lparr>MolFromPDBFile := None\<rparr>"

definition ex_files_no_field :: protein_files where
  "ex_files_no_field = ex_files\<lparr>json_load := Inr (PList [PDict []])\<rparr>"

definition ex_files_no_dssp :: protein_files where
  "ex_files_no_dssp = ex_files\<lparr>DSSP := Inl LibraryError\<rparr>"

text \<open>
  An input directory with the files of two proteins, the first with the given files and
  the second with the good ones, and an empty output directory.
\<close>

definition ex_world_with :: "protein_files \<Rightarrow> world" where
  "ex_world_with files =
     \<lparr>listdir = [''P1.pdb'', ''P1.json'', ''P2.pdb'', ''P2.json''],
      inputs = (\<lambda>file_name. if file_name = ''P1'' then files else ex_files),
      float_str = ex_float_str\<rparr>"

definition ex_state :: state where
  "ex_state = \<lparr>output_dir = Map.empty, printed = []\<rparr>"

section \<open>Predicates used in the statements\<close>

text \<open>Both directions of every pair hold the same attribute dictionary.\<close>

definition sym_adj :: "graph \<Rightarrow> bool" where
  "sym_adj G = (\<forall>u v. adj G (u, v) = adj G (v, u))"

text \<open>The dictionary \<^verbatim>\<open>add_edge(u, v, **a)\<close> leaves on the edge.\<close>

definition merged :: "graph \<Rightarrow> nat \<Rightarrow> nat \<Rightarrow> attrs \<Rightarrow> attrs" where
  "merged G u v a = (case adj G (u, v) of None \<Rightarrow> Map.empty | Some d \<Rightarrow> d) ++ a"

text \<open>
  \<^verbatim>\<open>residue_to_ca_atom\<close> has each residue number once, and sends it to an atom of that
  residue whose name is CA.
\<close>

definition ca_ok :: "(int \<rightharpoonup> string) \<Rightarrow> rd_atom list \<Rightarrow> (int \<times> nat) list \<Rightarrow> bool" where
  "ca_ok sad as ca =
     (distinct (map fst ca) \<and>
      (\<forall>(r, i) \<in> set ca. i < length as \<and> residue_number (as ! i) = r \<and>
                            sad (serial_number (as ! i)) = Some ''CA''))"

text \<open>The two ends of every bond are atoms of the molecule, as RDKit has them.\<close>

definition wf_mol :: "mol \<Rightarrow> bool" where
  "wf_mol m =
     (\<forall>b \<in> set (bonds m). begin_atom b < length (atoms m) \<and> end_atom b < length (atoms m))"

text \<open>The value of attribute \<open>k\<close> on the edge from \<open>u\<close> to \<open>v\<close>, if there is one.\<close>

definition edge_attr :: "graph \<Rightarrow> nat \<Rightarrow> nat \<Rightarrow> string \<Rightarrow> pyval option" where
  "edge_attr G u v k = (case adj G (u, v) of None \<Rightarrow> None | Some d \<Rightarrow> d k)"

text \<open>
  The edge between \<open>u\<close> and \<open>v\<close> carries what line 90 writes, for the coordinates
  \<open>c\<close> of the atoms.
\<close>

definition backbone_edge :: "(nat \<Rightarrow> real \<times> real \<times> real) \<Rightarrow> graph \<Rightarrow> nat \<Rightarrow> nat \<Rightarrow> bool" where
  "backbone_edge c G u v =
     (adj G (u, v) \<noteq> None \<and>
      edge_attr G u v ''bond_idx'' = Some (PInt 0) \<and>
      edge_attr G u v ''bond_order'' = Some (PInt 0) \<and>
      edge_attr G u v ''bond_length'' = Some (PFloat (euclid (c u) (c v))))"

text \<open>Every atom of \<^verbatim>\<open>residue_to_ca_atom\<close> is a node that stores the coordinates \<open>c\<close>.\<close>

definition ca_located :: "(nat \<Rightarrow> real \<times> real \<times> real) \<Rightarrow> (int \<times> nat) list \<Rightarrow> graph \<Rightarrow> bool" where
  "ca_located c ca G =
     (\<forall>(r, i) \<in> set ca. i \<in> fst ` set (nodes G) \<and> node_coords G i = Inr (c i))"

text \<open>An \<open>M\<close> by \<open>M\<close> matrix as \<^verbatim>\<open>json.load\<close> returns it: a list of \<open>M\<close> lists of \<open>M\<close> values.\<close>

definition square_matrix :: "pyval \<Rightarrow> nat \<Rightarrow> bool" where
  "square_matrix pae_matrix M =
     (case pae_matrix of
        PList rows \<Rightarrow>
          length rows = M \<and>
          list_all (\<lambda>row. case row of PList xs \<Rightarrow> length xs = M | _ \<Rightarrow> False) rows
      | _ \<Rightarrow> False)"

text \<open>No edge carries the attribute \<^verbatim>\<open>pae\<close>.\<close>

definition no_pae :: "graph \<Rightarrow> bool" where
  "no_pae G = (\<forall>x y. edge_attr G x y ''pae'' = None)"

section \<open>Properties of the graph operations\<close>

lemma update_fresh: "k \<notin> fst ` set al \<Longrightarrow> AList.update k v al = al @ [(k, v)]"
  by (induction al) auto

lemma update_present_keys: "k \<in> fst ` set al \<Longrightarrow> map fst (AList.update k v al) = map fst al"
  by (simp add: update_keys)

lemma set_update_subset: "set (AList.update k v al) \<subseteq> insert (k, v) (set al)"
  by (induction al) auto

lemma adj_touch_node [simp]: "adj (touch_node n G) = adj G"
  by (cases "map_of (nodes G) n") (simp_all add: touch_node_def)

lemma touch_node_present: "n \<in> fst ` set (nodes G) \<Longrightarrow> touch_node n G = G"
  by (cases "map_of (nodes G) n") (simp_all add: touch_node_def map_of_eq_None_iff)

lemma adj_add_edge:
  "adj (add_edge u v a G) = (adj G)((u, v) \<mapsto> merged G u v a, (v, u) \<mapsto> merged G u v a)"
  by (simp add: add_edge_def Let_def merged_def)

lemma adj_add_edge_fwd: "adj (add_edge u v a G) (u, v) = Some (merged G u v a)"
  by (simp only: adj_add_edge fun_upd_apply prod.inject split: if_split) blast

lemma adj_add_edge_bwd: "adj (add_edge u v a G) (v, u) = Some (merged G u v a)"
  by (simp only: adj_add_edge fun_upd_apply prod.inject split: if_split) blast

lemma adj_add_edge_other:
  "(x, y) \<noteq> (u, v) \<Longrightarrow> (x, y) \<noteq> (v, u) \<Longrightarrow> adj (add_edge u v a G) (x, y) = adj G (x, y)"
  by (simp only: adj_add_edge fun_upd_apply split: if_split) blast

lemma nodes_add_edge_present:
  "u \<in> fst ` set (nodes G) \<Longrightarrow> v \<in> fst ` set (nodes G) \<Longrightarrow> nodes (add_edge u v a G) = nodes G"
  by (simp add: add_edge_def Let_def touch_node_present)

lemma sym_adj_add_edge:
  assumes "sym_adj G" shows "sym_adj (add_edge u v a G)"
  unfolding sym_adj_def
proof (intro allI)
  fix x y
  consider "(x, y) = (u, v)" | "(x, y) = (v, u)" | "(x, y) \<noteq> (u, v)" "(x, y) \<noteq> (v, u)"
    by blast
  then show "adj (add_edge u v a G) (x, y) = adj (add_edge u v a G) (y, x)"
  proof cases
    case 1
    then have "x = u" "y = v" by blast+
    then show ?thesis by (simp only: adj_add_edge_fwd adj_add_edge_bwd)
  next
    case 2
    then have "x = v" "y = u" by blast+
    then show ?thesis by (simp only: adj_add_edge_fwd adj_add_edge_bwd)
  next
    case 3
    then have "(y, x) \<noteq> (u, v)" "(y, x) \<noteq> (v, u)" by blast+
    with 3 assms show ?thesis
      by (metis adj_add_edge_other sym_adj_def)
  qed
qed

lemma map_of_add_node:
  "map_of (nodes (add_node n a G)) =
     (map_of (nodes G))(n \<mapsto> (case map_of (nodes G) n of None \<Rightarrow> Map.empty | Some d \<Rightarrow> d) ++ a)"
  by (simp add: add_node_def update_conv')

lemma adj_add_node [simp]: "adj (add_node n a G) = adj G"
  by (simp add: add_node_def)

section \<open>The atoms\<close>

lemma upt_fresh: "map fst al = [0..<k] \<Longrightarrow> k \<notin> fst ` set al"
  by (metis atLeastLessThan_iff less_irrefl list.set_map set_upt)

lemma add_node_next_keys:
  "map fst (nodes G) = [0..<k] \<Longrightarrow> map fst (nodes (add_node k a G)) = [0..<Suc k]"
  by (simp add: add_node_def update_fresh upt_fresh)

lemma add_atoms_keys:
  "add_atoms sad (enumerate k as) (G, ca) = (G', ca') \<Longrightarrow> map fst (nodes G) = [0..<k] \<Longrightarrow>
   map fst (nodes G') = [0..<k + length as]"
proof (induction as arbitrary: k G ca)
  case Nil
  then show ?case by simp
next
  case (Cons a as)
  from Cons.IH[of "Suc k"] Cons.prems add_node_next_keys[of G k] show ?case by simp
qed

lemma add_atoms_adj: "add_atoms sad xs (G, ca) = (G', ca') \<Longrightarrow> adj G' = adj G"
  by (induction sad xs "(G, ca)" arbitrary: G ca rule: add_atoms.induct) auto

lemma add_atoms_data:
  "add_atoms sad (enumerate k as) (G, ca) = (G', ca') \<Longrightarrow> map fst (nodes G) = [0..<k] \<Longrightarrow>
   map_of (nodes G') i =
     (if k \<le> i \<and> i < k + length as then Some (atom_attrs sad (as ! (i - k)))
      else map_of (nodes G) i)"
proof (induction as arbitrary: k G ca)
  case Nil
  then show ?case by auto
next
  case (Cons a as)
  let ?G1 = "add_node k (atom_attrs sad a) G"
  let ?ca1 = "if sad (serial_number a) = Some ''CA'' then AList.update (residue_number a) k ca else ca"
  have step: "add_atoms sad (enumerate (Suc k) as) (?G1, ?ca1) = (G', ca')"
    using Cons.prems(1) by simp
  have keys: "map fst (nodes ?G1) = [0..<Suc k]"
    using Cons.prems(2) by (rule add_node_next_keys)
  have none: "map_of (nodes G) k = None"
    using upt_fresh[OF Cons.prems(2)] by (simp add: map_of_eq_None_iff)
  have G1: "map_of (nodes ?G1) i = (if i = k then Some (atom_attrs sad a) else map_of (nodes G) i)"
    by (simp add: map_of_add_node none)
  have IH: "map_of (nodes G') i =
     (if Suc k \<le> i \<and> i < Suc k + length as then Some (atom_attrs sad (as ! (i - Suc k)))
      else map_of (nodes ?G1) i)"
    using Cons.IH[OF step keys] .
  show ?case
  proof (cases "i = k")
    case True
    then show ?thesis using IH G1 by simp
  next
    case False
    then show ?thesis using IH G1 by (auto simp: nth_Cons' not_le)
  qed
qed

lemma ca_okD:
  "ca_ok sad as ca \<Longrightarrow> (r, i) \<in> set ca \<Longrightarrow>
   i < length as \<and> residue_number (as ! i) = r \<and> sad (serial_number (as ! i)) = Some ''CA''"
  unfolding ca_ok_def by blast

lemma ca_okI:
  "distinct (map fst ca) \<Longrightarrow>
   (\<And>r i. (r, i) \<in> set ca \<Longrightarrow>
      i < length as \<and> residue_number (as ! i) = r \<and> sad (serial_number (as ! i)) = Some ''CA'') \<Longrightarrow>
   ca_ok sad as ca"
  unfolding ca_ok_def by blast

lemma ca_ok_update:
  assumes "ca_ok sad pre ca" "sad (serial_number a) = Some ''CA''"
  shows "ca_ok sad (pre @ [a]) (AList.update (residue_number a) (length pre) ca)"
proof (rule ca_okI)
  have "distinct (map fst ca)" using assms(1) unfolding ca_ok_def by blast
  then show "distinct (map fst (AList.update (residue_number a) (length pre) ca))"
    by (rule distinct_update)
next
  fix r i assume "(r, i) \<in> set (AList.update (residue_number a) (length pre) ca)"
  then have "(r, i) \<in> insert (residue_number a, length pre) (set ca)"
    by (rule subsetD[OF set_update_subset])
  then consider "(r, i) = (residue_number a, length pre)" | "(r, i) \<in> set ca"
    by blast
  then show "i < length (pre @ [a]) \<and> residue_number ((pre @ [a]) ! i) = r \<and>
      sad (serial_number ((pre @ [a]) ! i)) = Some ''CA''"
  proof cases
    case 1
    then have r: "r = residue_number a" and i: "i = length pre" by blast+
    have "(pre @ [a]) ! length pre = a" by simp
    then show ?thesis unfolding r i using assms(2) by simp
  next
    case 2
    from ca_okD[OF assms(1) 2] show ?thesis by (simp add: nth_append)
  qed
qed

lemma ca_ok_extend:
  assumes "ca_ok sad pre ca" shows "ca_ok sad (pre @ [a]) ca"
proof (rule ca_okI)
  show "distinct (map fst ca)" using assms by (simp add: ca_ok_def)
next
  fix r i assume "(r, i) \<in> set ca"
  from ca_okD[OF assms this]
  show "i < length (pre @ [a]) \<and> residue_number ((pre @ [a]) ! i) = r \<and>
      sad (serial_number ((pre @ [a]) ! i)) = Some ''CA''"
    by (simp add: nth_append)
qed

lemma add_atoms_ca:
  "add_atoms sad (enumerate (length pre) as) (G, ca) = (G', ca') \<Longrightarrow> ca_ok sad pre ca \<Longrightarrow>
   ca_ok sad (pre @ as) ca'"
proof (induction as arbitrary: pre G ca)
  case Nil
  then show ?case by simp
next
  case (Cons a as)
  let ?G1 = "add_node (length pre) (atom_attrs sad a) G"
  let ?ca1 = "if sad (serial_number a) = Some ''CA''
              then AList.update (residue_number a) (length pre) ca else ca"
  have step: "add_atoms sad (enumerate (length (pre @ [a])) as) (?G1, ?ca1) = (G', ca')"
    using Cons.prems(1) by simp
  have "ca_ok sad (pre @ [a]) ?ca1"
    using Cons.prems(2) by (simp add: ca_ok_update ca_ok_extend)
  from Cons.IH[OF step this] show ?case by simp
qed

lemma ca_ok_inj:
  assumes "ca_ok sad as ca" "map_of ca r = Some i" "map_of ca r' = Some i"
  shows "r = r'"
proof -
  have a: "(r, i) \<in> set ca" using assms(2) by (rule map_of_SomeD)
  have b: "(r', i) \<in> set ca" using assms(3) by (rule map_of_SomeD)
  have "residue_number (as ! i) = r" using ca_okD[OF assms(1) a] by blast
  moreover have "residue_number (as ! i) = r'" using ca_okD[OF assms(1) b] by blast
  ultimately show ?thesis by (rule trans[OF sym])
qed

lemma ca_ok_bound:
  assumes "ca_ok sad as ca" "map_of ca r = Some i" shows "i < length as"
proof -
  have "(r, i) \<in> set ca" using assms(2) by (rule map_of_SomeD)
  from ca_okD[OF assms(1) this] show ?thesis by blast
qed

section \<open>The bonds\<close>

lemma upt_member: "map fst al = [0..<k] \<Longrightarrow> i < k \<Longrightarrow> i \<in> fst ` set al"
proof -
  assume a: "map fst al = [0..<k]" and b: "i < k"
  have "fst ` set al = set (map fst al)" by simp
  also have "\<dots> = {0..<k}" unfolding a by simp
  finally show ?thesis using b by simp
qed

lemma add_bonds_nodes:
  "add_bonds as bs G = Inr G' \<Longrightarrow> map fst (nodes G) = [0..<length as] \<Longrightarrow> nodes G' = nodes G"
proof (induction as bs G rule: add_bonds.induct)
  case (1 as G)
  then show ?case by simp
next
  case (2 as bond_idx b rest G)
  from "2.prems"(1) obtain len where
    len: "GetBondLength as (begin_atom b) (end_atom b) = Inr len"
    and rec: "add_bonds as rest (add_edge (begin_atom b) (end_atom b) (bond_attrs bond_idx b len) G) = Inr G'"
    by (cases "GetBondLength as (begin_atom b) (end_atom b)") simp_all
  from len have "begin_atom b < length as" "end_atom b < length as"
    by (simp_all add: GetBondLength_def split: if_splits)
  then have "begin_atom b \<in> fst ` set (nodes G)" "end_atom b \<in> fst ` set (nodes G)"
    using "2.prems"(2) by (simp_all add: upt_member)
  then have same: "nodes (add_edge (begin_atom b) (end_atom b) (bond_attrs bond_idx b len) G) = nodes G"
    by (rule nodes_add_edge_present)
  from "2.IH"[OF len rec] same "2.prems"(2) show ?case by simp
qed

lemma add_bonds_sym: "add_bonds as bs G = Inr G' \<Longrightarrow> sym_adj G \<Longrightarrow> sym_adj G'"
proof (induction as bs G rule: add_bonds.induct)
  case (1 as G)
  then show ?case by simp
next
  case (2 as bond_idx b rest G)
  from "2.prems"(1) obtain len where
    len: "GetBondLength as (begin_atom b) (end_atom b) = Inr len"
    and rec: "add_bonds as rest (add_edge (begin_atom b) (end_atom b) (bond_attrs bond_idx b len) G) = Inr G'"
    by (cases "GetBondLength as (begin_atom b) (end_atom b)") simp_all
  from "2.IH"[OF len rec] "2.prems"(2) show ?case by (simp add: sym_adj_add_edge)
qed

lemma add_bonds_ok:
  "\<forall>b \<in> snd ` set bs. begin_atom b < length as \<and> end_atom b < length as \<Longrightarrow>
   \<exists>G'. add_bonds as bs G = Inr G'"
proof (induction as bs G rule: add_bonds.induct)
  case (1 as G)
  then show ?case by simp
next
  case (2 as bond_idx b rest G)
  have "begin_atom b < length as \<and> end_atom b < length as"
    using "2.prems" by simp
  then have len: "GetBondLength as (begin_atom b) (end_atom b) =
      Inr (euclid (position (as ! begin_atom b)) (position (as ! end_atom b)))"
    by (simp add: GetBondLength_def)
  have "\<forall>b \<in> snd ` set rest. begin_atom b < length as \<and> end_atom b < length as"
    using "2.prems" by simp
  from "2.IH"[OF len this] show ?case by (simp add: len)
qed

lemma snd_enumerate: "snd ` set (enumerate k xs) = set xs"
  by (induction xs arbitrary: k) auto

lemma empty_graph_sym: "sym_adj empty_graph"
  by (simp add: sym_adj_def empty_graph_def)

lemma ca_ok_Nil: "ca_ok sad [] []"
  by (simp add: ca_ok_def)

lemma assemble_ok:
  assumes "wf_mol m"
  shows "\<exists>G ca. assemble m s = Inr (G, ca) \<and> map fst (nodes G) = [0..<length (atoms m)] \<and>
           (\<forall>i < length (atoms m).
              map_of (nodes G) i = Some (atom_attrs (serial_atom_dict s) (atoms m ! i))) \<and>
           ca_ok (serial_atom_dict s) (atoms m) ca \<and> sym_adj G"
proof -
  obtain G1 ca where
    a: "add_atoms (serial_atom_dict s) (enumerate 0 (atoms m)) (empty_graph, []) = (G1, ca)"
    by (cases "add_atoms (serial_atom_dict s) (enumerate 0 (atoms m)) (empty_graph, [])")
  have e: "map fst (nodes empty_graph) = [0..<0]" by (simp add: empty_graph_def)
  have k1: "map fst (nodes G1) = [0..<length (atoms m)]"
    using add_atoms_keys[OF a e] by simp
  have d1: "\<forall>i < length (atoms m).
      map_of (nodes G1) i = Some (atom_attrs (serial_atom_dict s) (atoms m ! i))"
    using add_atoms_data[OF a e] by simp
  have a': "add_atoms (serial_atom_dict s) (enumerate (length ([]::rd_atom list)) (atoms m))
              (empty_graph, []) = (G1, ca)"
    using a by simp
  have c1: "ca_ok (serial_atom_dict s) (atoms m) ca"
    using add_atoms_ca[OF a' ca_ok_Nil] by simp
  have "adj G1 = adj empty_graph" using a by (rule add_atoms_adj)
  then have s1: "sym_adj G1"
    using empty_graph_sym by (simp add: sym_adj_def)
  have "\<forall>b \<in> snd ` set (enumerate 0 (bonds m)).
          begin_atom b < length (atoms m) \<and> end_atom b < length (atoms m)"
    using assms unfolding wf_mol_def snd_enumerate .
  then obtain G2 where b: "add_bonds (atoms m) (enumerate 0 (bonds m)) G1 = Inr G2"
    using add_bonds_ok by blast
  have n2: "nodes G2 = nodes G1" using add_bonds_nodes[OF b k1] .
  have s2: "sym_adj G2" using add_bonds_sym[OF b s1] .
  have "assemble m s = Inr (G2, ca)" by (simp add: assemble_def a b)
  then show ?thesis using k1 d1 c1 s2 unfolding n2[symmetric] by blast
qed

section \<open>The backbone\<close>

lemma euclid_sym: "euclid p q = euclid q p"
  by (cases p; cases q) (simp add: euclid_def power2_commute)

lemma node_coords_atom:
  "map_of (nodes G) i = Some (atom_attrs sad a) \<Longrightarrow> node_coords G i = Inr (position a)"
  by (cases "position a") (simp add: node_coords_def atom_attrs_def point_val_def)

lemma node_coords_nodes: "nodes G' = nodes G \<Longrightarrow> node_coords G' i = node_coords G i"
  by (simp add: node_coords_def)

lemma ca_located_nodes: "nodes G' = nodes G \<Longrightarrow> ca_located c ca G \<Longrightarrow> ca_located c ca G'"
  by (simp add: ca_located_def node_coords_def)

lemma ca_locatedD:
  "ca_located c ca G \<Longrightarrow> (r, i) \<in> set ca \<Longrightarrow>
   i \<in> fst ` set (nodes G) \<and> node_coords G i = Inr (c i)"
  by (auto simp: ca_located_def)

lemma calculate_distance_located:
  "node_coords G u = Inr (c u) \<Longrightarrow> node_coords G v = Inr (c v) \<Longrightarrow>
   calculate_distance u v G = Inr (euclid (c u) (c v))"
  by (simp add: calculate_distance_def)

lemma edge_attr_add_edge_fwd: "edge_attr (add_edge u v a G) u v k = merged G u v a k"
  by (simp add: edge_attr_def adj_add_edge_fwd)

lemma edge_attr_add_edge_bwd: "edge_attr (add_edge u v a G) v u k = merged G u v a k"
  by (simp add: edge_attr_def adj_add_edge_bwd)

lemma edge_attr_add_edge_other:
  assumes "(x, y) \<noteq> (u, v)" "(x, y) \<noteq> (v, u)"
  shows "edge_attr (add_edge u v a G) x y k = edge_attr G x y k"
proof -
  have "adj (add_edge u v a G) (x, y) = adj G (x, y)"
    using assms by (rule adj_add_edge_other)
  then show ?thesis by (simp only: edge_attr_def)
qed

lemma merged_backbone:
  "merged G u v (backbone_attrs len) ''bond_idx'' = Some (PInt 0)"
  "merged G u v (backbone_attrs len) ''bond_order'' = Some (PInt 0)"
  "merged G u v (backbone_attrs len) ''bond_length'' = Some (PFloat len)"
  by (simp_all add: merged_def backbone_attrs_def map_add_def)

lemma backbone_edge_new_fwd:
  "backbone_edge c (add_edge u v (backbone_attrs (euclid (c u) (c v))) G) u v"
  by (simp add: backbone_edge_def edge_attr_add_edge_fwd adj_add_edge_fwd merged_backbone)

lemma backbone_edge_new_bwd:
  "backbone_edge c (add_edge u v (backbone_attrs (euclid (c u) (c v))) G) v u"
  by (simp add: backbone_edge_def edge_attr_add_edge_bwd adj_add_edge_bwd merged_backbone
        euclid_sym[of "c v" "c u"])

lemma backbone_edge_kept:
  assumes "backbone_edge c G x y"
  shows "backbone_edge c (add_edge u v (backbone_attrs (euclid (c u) (c v))) G) x y"
proof -
  consider "(x, y) = (u, v)" | "(x, y) = (v, u)" | "(x, y) \<noteq> (u, v)" "(x, y) \<noteq> (v, u)"
    by blast
  then show ?thesis
  proof cases
    case 1
    then have "x = u" "y = v" by blast+
    then show ?thesis by (simp only: backbone_edge_new_fwd)
  next
    case 2
    then have "x = v" "y = u" by blast+
    then show ?thesis by (simp only: backbone_edge_new_bwd)
  next
    case 3
    have a: "adj (add_edge u v (backbone_attrs (euclid (c u) (c v))) G) (x, y) = adj G (x, y)"
      using 3 by (rule adj_add_edge_other)
    have e: "\<And>k. edge_attr (add_edge u v (backbone_attrs (euclid (c u) (c v))) G) x y k
                 = edge_attr G x y k"
      using 3 by (rule edge_attr_add_edge_other)
    show ?thesis using assms unfolding backbone_edge_def a e .
  qed
qed

lemma link_backbone_Cons_cases:
  assumes "link_backbone ca ((r, u) # rest) G = Inr G'"
  obtains (skip) "map_of ca (r + 1) = None" "link_backbone ca rest G = Inr G'"
  | (link) v len where "map_of ca (r + 1) = Some v" "calculate_distance u v G = Inr len"
      "link_backbone ca rest (add_edge u v (backbone_attrs len) G) = Inr G'"
proof (cases "map_of ca (r + 1)")
  case None
  with assms skip show ?thesis by simp
next
  case (Some v)
  show ?thesis
  proof (cases "calculate_distance u v G")
    case (Inl e)
    with assms Some show ?thesis by simp
  next
    case (Inr len)
    with assms Some link show ?thesis by simp
  qed
qed

lemma link_backbone_step:
  assumes loc: "ca_located c ca G" and mem: "(r, u) \<in> set ca" and nx: "map_of ca (r + 1) = Some v"
  shows "calculate_distance u v G = Inr (euclid (c u) (c v))"
    and "nodes (add_edge u v a G) = nodes G"
    and "ca_located c ca (add_edge u v a G)"
proof -
  have v: "(r + 1, v) \<in> set ca" using nx by (rule map_of_SomeD)
  note U = ca_locatedD[OF loc mem] and V = ca_locatedD[OF loc v]
  show "calculate_distance u v G = Inr (euclid (c u) (c v))"
    using U V by (simp add: calculate_distance_located)
  show n: "nodes (add_edge u v a G) = nodes G"
    using U V by (simp add: nodes_add_edge_present)
  show "ca_located c ca (add_edge u v a G)"
    using n loc by (rule ca_located_nodes)
qed

lemma link_backbone_ok:
  "ca_located c ca G \<Longrightarrow> set rest \<subseteq> set ca \<Longrightarrow>
   \<exists>G'. link_backbone ca rest G = Inr G' \<and> nodes G' = nodes G"
proof (induction rest arbitrary: G)
  case Nil
  then show ?case by simp
next
  case (Cons p rest)
  obtain r u where p: "p = (r, u)" by (cases p)
  have mem: "(r, u) \<in> set ca" and sub: "set rest \<subseteq> set ca"
    using Cons.prems(2) p by simp_all
  show ?case
  proof (cases "map_of ca (r + 1)")
    case None
    with Cons.IH[OF Cons.prems(1) sub] p show ?thesis by simp
  next
    case (Some v)
    note st = link_backbone_step[OF Cons.prems(1) mem Some]
    from Cons.IH[OF st(3) sub, of "backbone_attrs (euclid (c u) (c v))"]
    show ?thesis using p Some st(1) st(2) by simp
  qed
qed

lemma link_backbone_sym:
  "link_backbone ca rest G = Inr G' \<Longrightarrow> sym_adj G \<Longrightarrow> sym_adj G'"
proof (induction rest arbitrary: G)
  case Nil
  then show ?case by simp
next
  case (Cons p rest)
  obtain r u where p: "p = (r, u)" by (cases p)
  from Cons.prems(1)[unfolded p] show ?case
  proof (cases rule: link_backbone_Cons_cases)
    case skip
    from Cons.IH[OF skip(2) Cons.prems(2)] show ?thesis .
  next
    case (link v len)
    from Cons.IH[OF link(3) sym_adj_add_edge[OF Cons.prems(2)]] show ?thesis .
  qed
qed

lemma link_backbone_keeps:
  "link_backbone ca rest G = Inr G' \<Longrightarrow> ca_located c ca G \<Longrightarrow> set rest \<subseteq> set ca \<Longrightarrow>
   backbone_edge c G x y \<Longrightarrow> backbone_edge c G' x y"
proof (induction rest arbitrary: G)
  case Nil
  then show ?case by simp
next
  case (Cons p rest)
  obtain r u where p: "p = (r, u)" by (cases p)
  have mem: "(r, u) \<in> set ca" and sub: "set rest \<subseteq> set ca"
    using Cons.prems(3) p by simp_all
  from Cons.prems(1)[unfolded p] show ?case
  proof (cases rule: link_backbone_Cons_cases)
    case skip
    from Cons.IH[OF skip(2) Cons.prems(2) sub Cons.prems(4)] show ?thesis .
  next
    case (link v len)
    note st = link_backbone_step[OF Cons.prems(2) mem link(1)]
    have len: "len = euclid (c u) (c v)" using st(1) link(2) by simp
    have "backbone_edge c (add_edge u v (backbone_attrs len) G) x y"
      unfolding len using Cons.prems(4) by (rule backbone_edge_kept)
    from Cons.IH[OF link(3) st(3) sub this] show ?thesis .
  qed
qed

lemma link_backbone_links:
  "link_backbone ca rest G = Inr G' \<Longrightarrow> ca_located c ca G \<Longrightarrow> set rest \<subseteq> set ca \<Longrightarrow>
   (r, u) \<in> set rest \<Longrightarrow> map_of ca (r + 1) = Some v \<Longrightarrow>
   backbone_edge c G' u v \<and> backbone_edge c G' v u"
proof (induction rest arbitrary: G)
  case Nil
  then show ?case by simp
next
  case (Cons p rest)
  obtain r0 u0 where p: "p = (r0, u0)" by (cases p)
  have mem: "(r0, u0) \<in> set ca" and sub: "set rest \<subseteq> set ca"
    using Cons.prems(3) p by simp_all
  consider (here) "(r, u) = (r0, u0)" | (later) "(r, u) \<in> set rest"
    using Cons.prems(4) p by auto
  then show ?case
  proof cases
    case here
    then have eq: "r0 = r" "u0 = u" by simp_all
    from Cons.prems(1)[unfolded p eq] show ?thesis
    proof (cases rule: link_backbone_Cons_cases)
      case skip
      with Cons.prems(5) show ?thesis by simp
    next
      case (link v' len)
      have v': "v' = v" using link(1) Cons.prems(5) by simp
      note st = link_backbone_step[OF Cons.prems(2) mem[unfolded eq] Cons.prems(5)]
      have len: "len = euclid (c u) (c v)" using st(1) link(2) v' by simp
      have rec: "link_backbone ca rest (add_edge u v (backbone_attrs (euclid (c u) (c v))) G) = Inr G'"
        using link(3) unfolding v' len .
      show ?thesis
        using link_backbone_keeps[OF rec st(3) sub backbone_edge_new_fwd]
              link_backbone_keeps[OF rec st(3) sub backbone_edge_new_bwd] by blast
    qed
  next
    case later
    from Cons.prems(1)[unfolded p] show ?thesis
    proof (cases rule: link_backbone_Cons_cases)
      case skip
      from Cons.IH[OF skip(2) Cons.prems(2) sub later Cons.prems(5)] show ?thesis .
    next
      case (link v0 len)
      note st = link_backbone_step[OF Cons.prems(2) mem link(1)]
      from Cons.IH[OF link(3) st(3) sub later Cons.prems(5)] show ?thesis .
    qed
  qed
qed

lemma link_backbone_only:
  "link_backbone ca rest G = Inr G' \<Longrightarrow> adj G' (x, y) \<noteq> adj G (x, y) \<Longrightarrow>
   \<exists>r u v. (r, u) \<in> set rest \<and> map_of ca (r + 1) = Some v \<and>
             ((x, y) = (u, v) \<or> (x, y) = (v, u))"
proof (induction rest arbitrary: G)
  case Nil
  then show ?case by simp
next
  case (Cons p rest)
  obtain r0 u0 where p: "p = (r0, u0)" by (cases p)
  from Cons.prems(1)[unfolded p] show ?case
  proof (cases rule: link_backbone_Cons_cases)
    case skip
    from Cons.IH[OF skip(2) Cons.prems(2)] show ?thesis by auto
  next
    case (link v0 len)
    show ?thesis
    proof (cases "(x, y) = (u0, v0) \<or> (x, y) = (v0, u0)")
      case True
      then show ?thesis using link(1) p by (intro exI[of _ r0] exI[of _ u0] exI[of _ v0]) simp
    next
      case False
      then have "adj (add_edge u0 v0 (backbone_attrs len) G) (x, y) = adj G (x, y)"
        by (intro adj_add_edge_other) blast+
      with Cons.prems(2) have "adj G' (x, y) \<noteq> adj (add_edge u0 v0 (backbone_attrs len) G) (x, y)"
        by simp
      from Cons.IH[OF link(3) this] show ?thesis by auto
    qed
  qed
qed

lemma assemble_ca: "assemble m s = Inr (G, ca) \<Longrightarrow> ca = residue_to_ca_atom m s"
  by (auto simp: assemble_def residue_to_ca_atom_def split: prod.splits sum.splits)

lemma backbone_ok:
  assumes "wf_mol m"
  shows "\<exists>G2 G3. assemble m s = Inr (G2, residue_to_ca_atom m s) \<and>
           backbone m s = Inr (G3, residue_to_ca_atom m s) \<and>
           link_backbone (residue_to_ca_atom m s) (residue_to_ca_atom m s) G2 = Inr G3 \<and>
           nodes G3 = nodes G2 \<and>
           map fst (nodes G2) = [0..<length (atoms m)] \<and>
           (\<forall>i < length (atoms m).
              map_of (nodes G2) i = Some (atom_attrs (serial_atom_dict s) (atoms m ! i))) \<and>
           ca_ok (serial_atom_dict s) (atoms m) (residue_to_ca_atom m s) \<and>
           ca_located (GetAtomPosition m) (residue_to_ca_atom m s) G2 \<and>
           sym_adj G2 \<and> sym_adj G3"
proof -
  from assemble_ok[OF assms, of s] obtain G2 ca where
    a: "assemble m s = Inr (G2, ca)" and
    k: "map fst (nodes G2) = [0..<length (atoms m)]" and
    d: "\<forall>i < length (atoms m).
          map_of (nodes G2) i = Some (atom_attrs (serial_atom_dict s) (atoms m ! i))" and
    c: "ca_ok (serial_atom_dict s) (atoms m) ca" and
    sy: "sym_adj G2"
    by blast
  have ca: "ca = residue_to_ca_atom m s" using a by (rule assemble_ca)
  have loc: "ca_located (GetAtomPosition m) ca G2"
    unfolding ca_located_def
  proof (intro ballI, clarify)
    fix r i assume "(r, i) \<in> set ca"
    from ca_okD[OF c this] have i: "i < length (atoms m)" by blast
    with d have "map_of (nodes G2) i = Some (atom_attrs (serial_atom_dict s) (atoms m ! i))"
      by blast
    then have "node_coords G2 i = Inr (GetAtomPosition m i)"
      unfolding GetAtomPosition_def by (rule node_coords_atom)
    moreover have "i \<in> fst ` set (nodes G2)" using k i by (rule upt_member)
    ultimately show "i \<in> fst ` set (nodes G2) \<and> node_coords G2 i = Inr (GetAtomPosition m i)"
      by blast
  qed
  from link_backbone_ok[OF loc subset_refl] obtain G3 where
    l: "link_backbone ca ca G2 = Inr G3" and n: "nodes G3 = nodes G2"
    by blast
  have s3: "sym_adj G3" using l sy by (rule link_backbone_sym)
  have b: "backbone m s = Inr (G3, ca)" by (simp add: backbone_def a l)
  show ?thesis
    using a b l n k d c loc sy s3 unfolding ca by blast
qed

section \<open>The two-residue protein, evaluated\<close>

lemma strip_CA: "strip '' CA '' = ''CA''"
  by (simp add: strip_def is_space_def)

lemma ex_serial_atom_dict: "serial_atom_dict ex_structure = [1 \<mapsto> ''CA'', 2 \<mapsto> ''CA'']"
  by (simp add: serial_atom_dict_def ex_structure_def all_atoms_def all_residues_def strip_CA)

lemma ex_wf: "wf_mol ex_mol"
  by (simp add: wf_mol_def ex_mol_def)

lemma ex_ca: "residue_to_ca_atom ex_mol ex_structure = [(1, 0), (2, 1)]"
  by (simp add: residue_to_ca_atom_def ex_serial_atom_dict ex_mol_def enumerate_eq_zip upt_rec)

section \<open>pLDDT\<close>

lemma set_node_attr_present:
  assumes "map_of (nodes G) n = Some d"
  shows "\<exists>G'. set_node_attr n k v G = Inr G' \<and>
           map_of (nodes G') = (map_of (nodes G))(n \<mapsto> d(k \<mapsto> v)) \<and>
           map fst (nodes G') = map fst (nodes G) \<and> adj G' = adj G"
proof -
  have "n \<in> fst ` set (nodes G)"
    using assms by (metis domI dom_map_of_conv_image_fst)
  then have "map fst (AList.update n (d(k \<mapsto> v)) (nodes G)) = map fst (nodes G)"
    by (rule update_present_keys)
  then show ?thesis using assms by (simp add: set_node_attr_def update_conv')
qed

lemma keys_member_map_of:
  "map fst al = [0..<N] \<Longrightarrow> i < N \<Longrightarrow> \<exists>d. map_of al i = Some d"
proof -
  assume "map fst al = [0..<N]" "i < N"
  then have "i \<in> fst ` set al" by (rule upt_member)
  then show ?thesis by (metis domD dom_map_of_conv_image_fst)
qed

lemma annotate_plddt_ok:
  "map fst (nodes G) = [0..<N] \<Longrightarrow> k + length as \<le> N \<Longrightarrow>
   \<exists>G'. annotate_plddt pd (enumerate k as) G = Inr G' \<and>
        map fst (nodes G') = [0..<N] \<and> adj G' = adj G \<and>
        (\<forall>i. map_of (nodes G') i =
           (if k \<le> i \<and> i < k + length as
            then map_option (\<lambda>d. d(''plddt'' \<mapsto> plddt_val (pd (residue_number (as ! (i - k))))))
                   (map_of (nodes G) i)
            else map_of (nodes G) i))"
proof (induction as arbitrary: k G)
  case Nil
  then show ?case by auto
next
  case (Cons a as)
  have "k < N" using Cons.prems(2) by simp
  with Cons.prems(1) obtain d where d: "map_of (nodes G) k = Some d"
    using keys_member_map_of by blast
  from set_node_attr_present[OF d, of "''plddt''" "plddt_val (pd (residue_number a))"]
  obtain G1 where
    s: "set_node_attr k ''plddt'' (plddt_val (pd (residue_number a))) G = Inr G1" and
    m1: "map_of (nodes G1) = (map_of (nodes G))(k \<mapsto> d(''plddt'' \<mapsto> plddt_val (pd (residue_number a))))" and
    k1: "map fst (nodes G1) = map fst (nodes G)" and a1: "adj G1 = adj G"
    by blast
  have k1': "map fst (nodes G1) = [0..<N]" using k1 Cons.prems(1) by simp
  have le: "Suc k + length as \<le> N" using Cons.prems(2) by simp
  from Cons.IH[OF k1' le] obtain G' where
    r: "annotate_plddt pd (enumerate (Suc k) as) G1 = Inr G'" and
    kk: "map fst (nodes G') = [0..<N]" and aa: "adj G' = adj G1" and
    mm: "\<forall>i. map_of (nodes G') i =
           (if Suc k \<le> i \<and> i < Suc k + length as
            then map_option (\<lambda>d. d(''plddt'' \<mapsto> plddt_val (pd (residue_number (as ! (i - Suc k))))))
                   (map_of (nodes G1) i)
            else map_of (nodes G1) i)"
    by blast
  have run: "annotate_plddt pd (enumerate k (a # as)) G = Inr G'"
    using s r by simp
  have data: "map_of (nodes G') i =
           (if k \<le> i \<and> i < k + length (a # as)
            then map_option (\<lambda>d. d(''plddt'' \<mapsto> plddt_val (pd (residue_number ((a # as) ! (i - k))))))
                   (map_of (nodes G) i)
            else map_of (nodes G) i)" for i
  proof (cases "i = k")
    case True
    then show ?thesis using mm m1 d by simp
  next
    case False
    then show ?thesis using mm m1 by (auto simp: nth_Cons' not_le)
  qed
  from run kk aa a1 data show ?case by simp
qed

lemma build_plddt_dict_ok:
  "\<forall>res \<in> set rs. find (\<lambda>a. bp_id a = ''CA'') (child_atoms res) \<noteq> None \<Longrightarrow>
   \<exists>pd. build_plddt_dict rs d = Inr pd"
proof (induction rs arbitrary: d)
  case Nil
  then show ?case by simp
next
  case (Cons res rs)
  then obtain a where "find (\<lambda>a. bp_id a = ''CA'') (child_atoms res) = Some a" by auto
  then have "residue_getitem res ''CA'' = Inr a" by (simp add: residue_getitem_def)
  with Cons show ?case by simp
qed

lemma build_plddt_dict_fails:
  "res \<in> set rs \<Longrightarrow> find (\<lambda>a. bp_id a = ''CA'') (child_atoms res) = None \<Longrightarrow>
   build_plddt_dict rs d = Inl KeyError"
proof (induction rs arbitrary: d)
  case Nil
  then show ?case by simp
next
  case (Cons r rs)
  show ?case
  proof (cases "find (\<lambda>a. bp_id a = ''CA'') (child_atoms r)")
    case None
    then show ?thesis by (simp add: residue_getitem_def)
  next
    case (Some a)
    then have "res \<noteq> r" using Cons.prems(2) by auto
    with Cons.prems(1) have "res \<in> set rs" by simp
    from Cons.IH[OF this Cons.prems(2)] Some show ?thesis by (simp add: residue_getitem_def)
  qed
qed

lemma find_app:
  "find P (xs @ ys) = (case find P xs of None \<Rightarrow> find P ys | Some x \<Rightarrow> Some x)"
  by (induction xs) simp_all

lemma build_plddt_dict_lookup:
  "build_plddt_dict rs d = Inr pd \<Longrightarrow>
   pd r = (case find (\<lambda>res. resseq res = r) (rev rs) of
             None \<Rightarrow> d r
           | Some res \<Rightarrow> map_option bp_bfactor (find (\<lambda>a. bp_id a = ''CA'') (child_atoms res)))"
proof (induction rs arbitrary: d)
  case Nil
  then show ?case by simp
next
  case (Cons res rs)
  from Cons.prems obtain a where
    a: "find (\<lambda>a. bp_id a = ''CA'') (child_atoms res) = Some a" and
    rec: "build_plddt_dict rs (d(resseq res \<mapsto> bp_bfactor a)) = Inr pd"
    by (auto simp: residue_getitem_def split: option.splits)
  from Cons.IH[OF rec] a show ?case
    by (auto simp: find_app split: option.splits)
qed

lemma atom_attrs_residue_number:
  "atom_attrs sad a ''residue_number'' = Some (PInt (residue_number a))"
  by (simp add: atom_attrs_def)

lemma find_SomeD: "find P xs = Some x \<Longrightarrow> x \<in> set xs \<and> P x"
  by (induction xs) (auto split: if_splits)

lemma plddt_ok:
  assumes wf: "wf_mol m"
    and ca: "\<forall>res \<in> set (all_residues s). find (\<lambda>a. bp_id a = ''CA'') (child_atoms res) \<noteq> None"
  shows "\<exists>G3 G4 pd. backbone m s = Inr (G3, residue_to_ca_atom m s) \<and>
           plddt_dict s = Inr pd \<and> add_plddt s (atoms m) G3 = Inr G4 \<and>
           map fst (nodes G4) = [0..<length (atoms m)] \<and> adj G4 = adj G3 \<and>
           (\<forall>i < length (atoms m).
              map_of (nodes G4) i =
                Some ((atom_attrs (serial_atom_dict s) (atoms m ! i))
                        (''plddt'' \<mapsto> plddt_val (pd (residue_number (atoms m ! i))))))"
proof -
  from backbone_ok[OF wf, of s] obtain G2 G3 where
    a: "assemble m s = Inr (G2, residue_to_ca_atom m s)" and
    b: "backbone m s = Inr (G3, residue_to_ca_atom m s)" and
    n: "nodes G3 = nodes G2" and k: "map fst (nodes G2) = [0..<length (atoms m)]" and
    d: "\<forall>i < length (atoms m).
          map_of (nodes G2) i = Some (atom_attrs (serial_atom_dict s) (atoms m ! i))"
    by blast
  from build_plddt_dict_ok[OF ca, of Map.empty] obtain pd where
    pd: "plddt_dict s = Inr pd" unfolding plddt_dict_def by blast
  have k3: "map fst (nodes G3) = [0..<length (atoms m)]" using k n by simp
  from annotate_plddt_ok[OF k3, of 0 "atoms m" pd] obtain G4 where
    an: "annotate_plddt pd (enumerate 0 (atoms m)) G3 = Inr G4" and
    k4: "map fst (nodes G4) = [0..<length (atoms m)]" and a4: "adj G4 = adj G3" and
    m4: "\<forall>i. map_of (nodes G4) i =
           (if 0 \<le> i \<and> i < 0 + length (atoms m)
            then map_option (\<lambda>d. d(''plddt'' \<mapsto> plddt_val (pd (residue_number (atoms m ! (i - 0))))))
                   (map_of (nodes G3) i)
            else map_of (nodes G3) i)"
    by auto
  have ap: "add_plddt s (atoms m) G3 = Inr G4" by (simp add: add_plddt_def pd an)
  have "map_of (nodes G4) i =
          Some ((atom_attrs (serial_atom_dict s) (atoms m ! i))
                  (''plddt'' \<mapsto> plddt_val (pd (residue_number (atoms m ! i)))))"
    if "i < length (atoms m)" for i
    using m4 d n that by simp
  with b pd ap k4 a4 show ?thesis by blast
qed

lemma ex_all_ca:
  "\<forall>res \<in> set (all_residues ex_structure).
     find (\<lambda>a. bp_id a = ''CA'') (child_atoms res) \<noteq> None"
  by (simp add: all_residues_def ex_structure_def)

lemma ex_all_ca_list:
  "list_all (\<lambda>res. find (\<lambda>a. bp_id a = ''CA'') (child_atoms res) \<noteq> None)
     (all_residues ex_structure)"
  using ex_all_ca by (simp add: list_all_iff)

lemma ex_no_ca_plddt: "plddt_dict ex_structure_no_ca = Inl KeyError"
  by (simp add: plddt_dict_def all_residues_def ex_structure_no_ca_def residue_getitem_def)

section \<open>PAE\<close>

lemma ca_ok_node:
  assumes "ca_ok sad as ca" "map fst (nodes G) = [0..<length as]" "map_of ca r = Some u"
  shows "u \<in> fst ` set (nodes G)"
proof -
  have "u < length as" using assms(1,3) by (rule ca_ok_bound)
  with assms(2) show ?thesis by (rule upt_member)
qed

lemma pae_row_Cons_cases:
  assumes "pae_row ca mat i (j # js) G = Inr G'"
  obtains (skip) "i = j \<or> map_of ca (int i + 1) = None \<or> map_of ca (int j + 1) = None"
      "pae_row ca mat i js G = Inr G'"
  | (store) pae u v where "i \<noteq> j" "pae_entry mat i j = Inr pae"
      "map_of ca (int i + 1) = Some u" "map_of ca (int j + 1) = Some v"
      "pae_row ca mat i js (add_edge u v [''pae'' \<mapsto> pae] G) = Inr G'"
proof (cases "i = j")
  case True
  with assms skip show ?thesis by simp
next
  case False
  show ?thesis
  proof (cases "pae_entry mat i j")
    case (Inl e)
    with assms False show ?thesis by simp
  next
    case (Inr pae)
    show ?thesis
    proof (cases "map_of ca (int i + 1)")
      case None
      with assms False Inr skip show ?thesis by simp
    next
      case (Some u)
      note u = this
      show ?thesis
      proof (cases "map_of ca (int j + 1)")
        case None
        with assms False Inr u skip show ?thesis by simp
      next
        case (Some v)
        with assms False Inr u store show ?thesis by simp
      qed
    qed
  qed
qed

lemma pae_row_nodes:
  "pae_row ca mat i js G = Inr G' \<Longrightarrow> ca_ok sad as ca \<Longrightarrow>
   map fst (nodes G) = [0..<length as] \<Longrightarrow> nodes G' = nodes G"
proof (induction js arbitrary: G)
  case Nil
  then show ?case by simp
next
  case (Cons j js)
  from Cons.prems(1) show ?case
  proof (cases rule: pae_row_Cons_cases)
    case skip
    from Cons.IH[OF skip(2) Cons.prems(2,3)] show ?thesis .
  next
    case (store pae u v)
    have n: "nodes (add_edge u v [''pae'' \<mapsto> pae] G) = nodes G"
      using ca_ok_node[OF Cons.prems(2,3) store(3)] ca_ok_node[OF Cons.prems(2,3) store(4)]
      by (rule nodes_add_edge_present)
    from Cons.IH[OF store(5) Cons.prems(2)] n Cons.prems(3) show ?thesis by simp
  qed
qed

lemma pae_row_sym: "pae_row ca mat i js G = Inr G' \<Longrightarrow> sym_adj G \<Longrightarrow> sym_adj G'"
proof (induction js arbitrary: G)
  case Nil
  then show ?case by simp
next
  case (Cons j js)
  from Cons.prems(1) show ?case
  proof (cases rule: pae_row_Cons_cases)
    case skip
    from Cons.IH[OF skip(2) Cons.prems(2)] show ?thesis .
  next
    case (store pae u v)
    from Cons.IH[OF store(5) sym_adj_add_edge[OF Cons.prems(2)]] show ?thesis .
  qed
qed

text \<open>A write for the indices \<open>(i, j)\<close> reaches the pair of \<open>(a, b)\<close> only when it is
  \<open>(a, b)\<close> or \<open>(b, a)\<close>.\<close>

lemma pae_write_elsewhere:
  assumes c: "ca_ok sad as ca"
    and u: "map_of ca (int a + 1) = Some u" and v: "map_of ca (int b + 1) = Some v"
    and x: "map_of ca (int i + 1) = Some x" and y: "map_of ca (int j + 1) = Some y"
    and ne: "\<not> (i = a \<and> j = b)" "\<not> (i = b \<and> j = a)"
  shows "adj (add_edge x y attr G) (u, v) = adj G (u, v)"
proof (rule adj_add_edge_other)
  show "(u, v) \<noteq> (x, y)"
  proof
    assume "(u, v) = (x, y)"
    then have "u = x" "v = y" by simp_all
    then have "int a + 1 = int i + 1" "int b + 1 = int j + 1"
      using ca_ok_inj[OF c] u v x y by blast+
    with ne(1) show False by simp
  qed
  show "(u, v) \<noteq> (y, x)"
  proof
    assume "(u, v) = (y, x)"
    then have "u = y" "v = x" by simp_all
    then have "int a + 1 = int j + 1" "int b + 1 = int i + 1"
      using ca_ok_inj[OF c] u v x y by blast+
    with ne(2) show False by simp
  qed
qed

lemma pae_row_miss:
  "pae_row ca mat i js G = Inr G' \<Longrightarrow> ca_ok sad as ca \<Longrightarrow>
   map_of ca (int a + 1) = Some u \<Longrightarrow> map_of ca (int b + 1) = Some v \<Longrightarrow>
   \<forall>j \<in> set js. \<not> (i = a \<and> j = b) \<and> \<not> (i = b \<and> j = a) \<Longrightarrow>
   adj G' (u, v) = adj G (u, v)"
proof (induction js arbitrary: G)
  case Nil
  then show ?case by simp
next
  case (Cons j js)
  have rest: "\<forall>j \<in> set js. \<not> (i = a \<and> j = b) \<and> \<not> (i = b \<and> j = a)"
    and here: "\<not> (i = a \<and> j = b)" "\<not> (i = b \<and> j = a)"
    using Cons.prems(5) by simp_all
  from Cons.prems(1) show ?case
  proof (cases rule: pae_row_Cons_cases)
    case skip
    from Cons.IH[OF skip(2) Cons.prems(2,3,4) rest] show ?thesis .
  next
    case (store pae x y)
    have "adj (add_edge x y [''pae'' \<mapsto> pae] G) (u, v) = adj G (u, v)"
      using Cons.prems(2,3,4) store(3,4) here by (rule pae_write_elsewhere)
    with Cons.IH[OF store(5) Cons.prems(2,3,4) rest] show ?thesis by simp
  qed
qed

lemma merged_pae: "merged G u v [''pae'' \<mapsto> p] ''pae'' = Some p"
  by (simp add: merged_def)

lemma merged_pae_other:
  "k \<noteq> ''pae'' \<Longrightarrow> merged G u v [''pae'' \<mapsto> p] k = edge_attr G u v k"
  by (simp add: merged_def edge_attr_def map_add_def split: option.splits)

lemma edge_attr_cong: "adj G' (x, y) = adj G (x, y) \<Longrightarrow> edge_attr G' x y k = edge_attr G x y k"
  by (simp add: edge_attr_def)

lemma pae_row_hit:
  "pae_row ca mat b js G = Inr G' \<Longrightarrow> ca_ok sad as ca \<Longrightarrow>
   map_of ca (int a + 1) = Some u \<Longrightarrow> map_of ca (int b + 1) = Some v \<Longrightarrow>
   a \<noteq> b \<Longrightarrow> a \<in> set js \<Longrightarrow> distinct js \<Longrightarrow> pae_entry mat b a = Inr val \<Longrightarrow>
   edge_attr G' u v ''pae'' = Some val \<and> edge_attr G' v u ''pae'' = Some val"
proof (induction js arbitrary: G)
  case Nil
  then show ?case by simp
next
  case (Cons j js)
  note c = Cons.prems(2) and u = Cons.prems(3) and v = Cons.prems(4)
  show ?case
  proof (cases "j = a")
    case True
    have notin: "a \<notin> set js" using Cons.prems(7) True by simp
    from Cons.prems(1)[unfolded True] show ?thesis
    proof (cases rule: pae_row_Cons_cases)
      case skip
      with Cons.prems(5) u v show ?thesis by auto
    next
      case (store pae x y)
      have x: "x = v" and y: "y = u" and p: "pae = val"
        using store(2,3,4) u v Cons.prems(8) by simp_all
      let ?G1 = "add_edge v u [''pae'' \<mapsto> val] G"
      have rec: "pae_row ca mat b js ?G1 = Inr G'" using store(5) unfolding x y p .
      have cond1: "\<forall>j \<in> set js. \<not> (b = a \<and> j = b) \<and> \<not> (b = b \<and> j = a)"
        using notin by auto
      have cond2: "\<forall>j \<in> set js. \<not> (b = b \<and> j = a) \<and> \<not> (b = a \<and> j = b)"
        using notin by auto
      have "adj G' (u, v) = adj ?G1 (u, v)"
        using rec c u v cond1 by (rule pae_row_miss)
      then have 1: "edge_attr G' u v ''pae'' = edge_attr ?G1 u v ''pae''"
        by (rule edge_attr_cong)
      have "adj G' (v, u) = adj ?G1 (v, u)"
        using rec c v u cond2 by (rule pae_row_miss)
      then have 2: "edge_attr G' v u ''pae'' = edge_attr ?G1 v u ''pae''"
        by (rule edge_attr_cong)
      show ?thesis
        unfolding 1 2 by (simp add: edge_attr_add_edge_fwd edge_attr_add_edge_bwd merged_pae)
    qed
  next
    case False
    then have mem: "a \<in> set js" and d: "distinct js" using Cons.prems(6,7) by auto
    from Cons.prems(1) show ?thesis
    proof (cases rule: pae_row_Cons_cases)
      case skip
      from Cons.IH[OF skip(2) c u v Cons.prems(5) mem d Cons.prems(8)] show ?thesis .
    next
      case (store pae x y)
      from Cons.IH[OF store(5) c u v Cons.prems(5) mem d Cons.prems(8)] show ?thesis .
    qed
  qed
qed

lemma pae_rows_Cons_cases:
  assumes "pae_rows ca mat (i # rest) G = Inr G'"
  obtains row n G1 where "py_getitem mat i = Inr row" "py_len row = Inr n"
    "pae_row ca mat i [0..<n] G = Inr G1" "pae_rows ca mat rest G1 = Inr G'"
proof (cases "py_getitem mat i")
  case (Inl e)
  with assms show ?thesis by simp
next
  case (Inr row)
  note row = this
  show ?thesis
  proof (cases "py_len row")
    case (Inl e)
    with assms row show ?thesis by simp
  next
    case (Inr n)
    note n = this
    show ?thesis
    proof (cases "pae_row ca mat i [0..<n] G")
      case (Inl e)
      with assms row n show ?thesis by simp
    next
      case (Inr G1)
      with assms row n that show ?thesis by simp
    qed
  qed
qed

lemma pae_rows_nodes:
  "pae_rows ca mat rest G = Inr G' \<Longrightarrow> ca_ok sad as ca \<Longrightarrow>
   map fst (nodes G) = [0..<length as] \<Longrightarrow> nodes G' = nodes G"
proof (induction rest arbitrary: G)
  case Nil
  then show ?case by simp
next
  case (Cons i rest)
  from Cons.prems(1) show ?case
  proof (cases rule: pae_rows_Cons_cases)
    case (1 row n G1)
    have n1: "nodes G1 = nodes G" using 1(3) Cons.prems(2,3) by (rule pae_row_nodes)
    from Cons.IH[OF 1(4) Cons.prems(2)] n1 Cons.prems(3) show ?thesis by simp
  qed
qed

lemma pae_rows_sym: "pae_rows ca mat rest G = Inr G' \<Longrightarrow> sym_adj G \<Longrightarrow> sym_adj G'"
proof (induction rest arbitrary: G)
  case Nil
  then show ?case by simp
next
  case (Cons i rest)
  from Cons.prems(1) show ?case
  proof (cases rule: pae_rows_Cons_cases)
    case (1 row n G1)
    from Cons.IH[OF 1(4) pae_row_sym[OF 1(3) Cons.prems(2)]] show ?thesis .
  qed
qed

lemma pae_rows_miss:
  "pae_rows ca mat rest G = Inr G' \<Longrightarrow> ca_ok sad as ca \<Longrightarrow>
   map_of ca (int a + 1) = Some u \<Longrightarrow> map_of ca (int b + 1) = Some v \<Longrightarrow>
   \<forall>i \<in> set rest. i \<noteq> a \<and> i \<noteq> b \<Longrightarrow> adj G' (u, v) = adj G (u, v)"
proof (induction rest arbitrary: G)
  case Nil
  then show ?case by simp
next
  case (Cons i rest)
  have i: "i \<noteq> a" "i \<noteq> b" and rest: "\<forall>i \<in> set rest. i \<noteq> a \<and> i \<noteq> b"
    using Cons.prems(5) by simp_all
  from Cons.prems(1) show ?case
  proof (cases rule: pae_rows_Cons_cases)
    case (1 row n G1)
    have "\<forall>j \<in> set [0..<n]. \<not> (i = a \<and> j = b) \<and> \<not> (i = b \<and> j = a)"
      using i by simp
    with 1(3) Cons.prems(2,3,4) have "adj G1 (u, v) = adj G (u, v)"
      by (rule pae_row_miss)
    with Cons.IH[OF 1(4) Cons.prems(2,3,4) rest] show ?thesis by simp
  qed
qed

lemma pae_rows_hit:
  "pae_rows ca mat (xs @ b # ys) G = Inr G' \<Longrightarrow> ca_ok sad as ca \<Longrightarrow>
   map_of ca (int a + 1) = Some u \<Longrightarrow> map_of ca (int b + 1) = Some v \<Longrightarrow>
   a \<noteq> b \<Longrightarrow> a \<notin> set ys \<Longrightarrow> b \<notin> set ys \<Longrightarrow>
   py_getitem mat b = Inr rowb \<Longrightarrow> py_len rowb = Inr n \<Longrightarrow> a < n \<Longrightarrow>
   pae_entry mat b a = Inr val \<Longrightarrow>
   edge_attr G' u v ''pae'' = Some val \<and> edge_attr G' v u ''pae'' = Some val"
proof (induction xs arbitrary: G)
  case Nil
  note c = Nil.prems(2) and u = Nil.prems(3) and v = Nil.prems(4)
  from Nil.prems(1) have "pae_rows ca mat (b # ys) G = Inr G'" by simp
  then show ?case
  proof (cases rule: pae_rows_Cons_cases)
    case (1 row m G1)
    have m: "m = n" using 1(1,2) Nil.prems(8,9) by simp
    have "a \<in> set [0..<m]" using Nil.prems(10) m by simp
    with 1(3) c u v Nil.prems(5) have e1:
      "edge_attr G1 u v ''pae'' = Some val \<and> edge_attr G1 v u ''pae'' = Some val"
      using Nil.prems(11) by (intro pae_row_hit[where js = "[0..<m]"]) simp_all
    have away: "\<forall>i \<in> set ys. i \<noteq> a \<and> i \<noteq> b" using Nil.prems(6,7) by auto
    have away': "\<forall>i \<in> set ys. i \<noteq> b \<and> i \<noteq> a" using Nil.prems(6,7) by auto
    have "adj G' (u, v) = adj G1 (u, v)" using 1(4) c u v away by (rule pae_rows_miss)
    then have 2: "edge_attr G' u v ''pae'' = edge_attr G1 u v ''pae''" by (rule edge_attr_cong)
    have "adj G' (v, u) = adj G1 (v, u)" using 1(4) c v u away' by (rule pae_rows_miss)
    then have 3: "edge_attr G' v u ''pae'' = edge_attr G1 v u ''pae''" by (rule edge_attr_cong)
    from e1 show ?thesis unfolding 2 3 .
  qed
next
  case (Cons x xs)
  from Cons.prems(1) have "pae_rows ca mat (x # (xs @ b # ys)) G = Inr G'" by simp
  then show ?case
  proof (cases rule: pae_rows_Cons_cases)
    case (1 row m G1)
    from Cons.IH[OF 1(4) Cons.prems(2-11)] show ?thesis .
  qed
qed

lemma pae_write_keeps:
  assumes "sym_adj G" "k \<noteq> ''pae''"
  shows "edge_attr (add_edge u v [''pae'' \<mapsto> p] G) x y k = edge_attr G x y k"
proof -
  consider "(x, y) = (u, v)" | "(x, y) = (v, u)" | "(x, y) \<noteq> (u, v)" "(x, y) \<noteq> (v, u)"
    by blast
  then show ?thesis
  proof cases
    case 1
    then have "x = u" "y = v" by blast+
    then show ?thesis by (simp only: edge_attr_add_edge_fwd merged_pae_other[OF assms(2)])
  next
    case 2
    then have xy: "x = v" "y = u" by blast+
    have "edge_attr G u v k = edge_attr G v u k"
      using assms(1) by (simp add: edge_attr_def sym_adj_def)
    then show ?thesis
      unfolding xy by (simp only: edge_attr_add_edge_bwd merged_pae_other[OF assms(2)])
  next
    case 3
    then show ?thesis by (rule edge_attr_add_edge_other)
  qed
qed

lemma pae_row_keeps:
  "pae_row ca mat i js G = Inr G' \<Longrightarrow> sym_adj G \<Longrightarrow> k \<noteq> ''pae'' \<Longrightarrow>
   edge_attr G' x y k = edge_attr G x y k"
proof (induction js arbitrary: G)
  case Nil
  then show ?case by simp
next
  case (Cons j js)
  from Cons.prems(1) show ?case
  proof (cases rule: pae_row_Cons_cases)
    case skip
    from Cons.IH[OF skip(2) Cons.prems(2,3)] show ?thesis .
  next
    case (store pae u v)
    from Cons.IH[OF store(5) sym_adj_add_edge[OF Cons.prems(2)] Cons.prems(3)]
      pae_write_keeps[OF Cons.prems(2,3)] show ?thesis by simp
  qed
qed

lemma pae_rows_keeps:
  "pae_rows ca mat rest G = Inr G' \<Longrightarrow> sym_adj G \<Longrightarrow> k \<noteq> ''pae'' \<Longrightarrow>
   edge_attr G' x y k = edge_attr G x y k"
proof (induction rest arbitrary: G)
  case Nil
  then show ?case by simp
next
  case (Cons i rest)
  from Cons.prems(1) show ?case
  proof (cases rule: pae_rows_Cons_cases)
    case (1 row n G1)
    from Cons.IH[OF 1(4) pae_row_sym[OF 1(3) Cons.prems(2)] Cons.prems(3)]
      pae_row_keeps[OF 1(3) Cons.prems(2,3)] show ?thesis by simp
  qed
qed

text \<open>An edge that is there stays there.\<close>

lemma add_edge_keeps_edges: "adj G (x, y) \<noteq> None \<Longrightarrow> adj (add_edge u v a G) (x, y) \<noteq> None"
proof -
  assume e: "adj G (x, y) \<noteq> None"
  consider "(x, y) = (u, v)" | "(x, y) = (v, u)" | "(x, y) \<noteq> (u, v)" "(x, y) \<noteq> (v, u)"
    by blast
  then show ?thesis
  proof cases
    case 1
    then have "x = u" "y = v" by blast+
    then show ?thesis by (simp only: adj_add_edge_fwd) simp
  next
    case 2
    then have "x = v" "y = u" by blast+
    then show ?thesis by (simp only: adj_add_edge_bwd) simp
  next
    case 3
    then have "adj (add_edge u v a G) (x, y) = adj G (x, y)" by (rule adj_add_edge_other)
    with e show ?thesis by simp
  qed
qed

lemma pae_row_keeps_edges:
  "pae_row ca mat i js G = Inr G' \<Longrightarrow> adj G (x, y) \<noteq> None \<Longrightarrow> adj G' (x, y) \<noteq> None"
proof (induction js arbitrary: G)
  case Nil
  then show ?case by simp
next
  case (Cons j js)
  from Cons.prems(1) show ?case
  proof (cases rule: pae_row_Cons_cases)
    case skip
    from Cons.IH[OF skip(2) Cons.prems(2)] show ?thesis .
  next
    case (store pae u v)
    from Cons.IH[OF store(5) add_edge_keeps_edges[OF Cons.prems(2)]] show ?thesis .
  qed
qed

lemma pae_rows_keeps_edges:
  "pae_rows ca mat rest G = Inr G' \<Longrightarrow> adj G (x, y) \<noteq> None \<Longrightarrow> adj G' (x, y) \<noteq> None"
proof (induction rest arbitrary: G)
  case Nil
  then show ?case by simp
next
  case (Cons i rest)
  from Cons.prems(1) show ?case
  proof (cases rule: pae_rows_Cons_cases)
    case (1 row n G1)
    from Cons.IH[OF 1(4) pae_row_keeps_edges[OF 1(3) Cons.prems(2)]] show ?thesis .
  qed
qed

text \<open>No write goes to a pair \<open>(x, x)\<close>.\<close>

lemma pae_row_loop:
  "pae_row ca mat i js G = Inr G' \<Longrightarrow> ca_ok sad as ca \<Longrightarrow> adj G' (x, x) = adj G (x, x)"
proof (induction js arbitrary: G)
  case Nil
  then show ?case by simp
next
  case (Cons j js)
  from Cons.prems(1) show ?case
  proof (cases rule: pae_row_Cons_cases)
    case skip
    from Cons.IH[OF skip(2) Cons.prems(2)] show ?thesis .
  next
    case (store pae u v)
    have "u \<noteq> v"
    proof
      assume "u = v"
      with store(3,4) have "int i + 1 = int j + 1" using ca_ok_inj[OF Cons.prems(2)] by blast
      with store(1) show False by simp
    qed
    then have "(x, x) \<noteq> (u, v)" "(x, x) \<noteq> (v, u)" by auto
    then have "adj (add_edge u v [''pae'' \<mapsto> pae] G) (x, x) = adj G (x, x)"
      by (rule adj_add_edge_other)
    with Cons.IH[OF store(5) Cons.prems(2)] show ?thesis by simp
  qed
qed

lemma pae_rows_loop:
  "pae_rows ca mat rest G = Inr G' \<Longrightarrow> ca_ok sad as ca \<Longrightarrow> adj G' (x, x) = adj G (x, x)"
proof (induction rest arbitrary: G)
  case Nil
  then show ?case by simp
next
  case (Cons i rest)
  from Cons.prems(1) show ?case
  proof (cases rule: pae_rows_Cons_cases)
    case (1 row n G1)
    from Cons.IH[OF 1(4) Cons.prems(2)] pae_row_loop[OF 1(3) Cons.prems(2)]
    show ?thesis by simp
  qed
qed

text \<open>Bonds and backbone edges carry no \<^verbatim>\<open>pae\<close>.\<close>

lemma no_pae_add_edge:
  assumes "no_pae G" "a ''pae'' = None"
  shows "no_pae (add_edge u v a G)"
  unfolding no_pae_def
proof (intro allI)
  fix x y
  have m: "merged G u v a ''pae'' = None"
    using assms by (simp add: merged_def no_pae_def edge_attr_def map_add_def split: option.splits)
  consider "(x, y) = (u, v)" | "(x, y) = (v, u)" | "(x, y) \<noteq> (u, v)" "(x, y) \<noteq> (v, u)"
    by blast
  then show "edge_attr (add_edge u v a G) x y ''pae'' = None"
  proof cases
    case 1
    then have "x = u" "y = v" by blast+
    then show ?thesis using m by (simp only: edge_attr_add_edge_fwd)
  next
    case 2
    then have "x = v" "y = u" by blast+
    then show ?thesis using m by (simp only: edge_attr_add_edge_bwd)
  next
    case 3
    then have "edge_attr (add_edge u v a G) x y ''pae'' = edge_attr G x y ''pae''"
      by (rule edge_attr_add_edge_other)
    with assms(1) show ?thesis by (simp add: no_pae_def)
  qed
qed

lemma add_bonds_no_pae: "add_bonds as bs G = Inr G' \<Longrightarrow> no_pae G \<Longrightarrow> no_pae G'"
proof (induction as bs G rule: add_bonds.induct)
  case (1 as G)
  then show ?case by simp
next
  case (2 as bond_idx b rest G)
  from "2.prems"(1) obtain len where
    len: "GetBondLength as (begin_atom b) (end_atom b) = Inr len"
    and rec: "add_bonds as rest (add_edge (begin_atom b) (end_atom b) (bond_attrs bond_idx b len) G) = Inr G'"
    by (cases "GetBondLength as (begin_atom b) (end_atom b)") simp_all
  have "no_pae (add_edge (begin_atom b) (end_atom b) (bond_attrs bond_idx b len) G)"
    using "2.prems"(2) by (rule no_pae_add_edge) (simp add: bond_attrs_def)
  from "2.IH"[OF len rec this] show ?case .
qed

lemma link_backbone_no_pae: "link_backbone ca rest G = Inr G' \<Longrightarrow> no_pae G \<Longrightarrow> no_pae G'"
proof (induction rest arbitrary: G)
  case Nil
  then show ?case by simp
next
  case (Cons p rest)
  obtain r u where p: "p = (r, u)" by (cases p)
  from Cons.prems(1)[unfolded p] show ?case
  proof (cases rule: link_backbone_Cons_cases)
    case skip
    from Cons.IH[OF skip(2) Cons.prems(2)] show ?thesis .
  next
    case (link v len)
    have "no_pae (add_edge u v (backbone_attrs len) G)"
      using Cons.prems(2) by (rule no_pae_add_edge) (simp add: backbone_attrs_def)
    from Cons.IH[OF link(3) this] show ?thesis .
  qed
qed

lemma backbone_no_pae:
  assumes "backbone m s = Inr (G3, ca)" shows "no_pae G3"
proof -
  from assms obtain G1 ca1 G2 where
    a: "add_atoms (serial_atom_dict s) (enumerate 0 (atoms m)) (empty_graph, []) = (G1, ca1)" and
    b: "add_bonds (atoms m) (enumerate 0 (bonds m)) G1 = Inr G2" and
    l: "link_backbone ca1 ca1 G2 = Inr G3"
    by (auto simp: backbone_def assemble_def split: prod.splits sum.splits)
  have "adj G1 = adj empty_graph" using a by (rule add_atoms_adj)
  then have "no_pae G1" by (simp add: no_pae_def edge_attr_def empty_graph_def)
  with b have "no_pae G2" by (rule add_bonds_no_pae)
  with l show ?thesis by (rule link_backbone_no_pae)
qed

lemma square_matrixD:
  assumes "square_matrix mat M"
  obtains rows where "mat = PList rows" "length rows = M"
    "\<And>i. i < M \<Longrightarrow> \<exists>xs. rows ! i = PList xs \<and> length xs = M"
proof -
  from assms obtain rows where r: "mat = PList rows" "length rows = M"
    and a: "list_all (\<lambda>row. case row of PList xs \<Rightarrow> length xs = M | _ \<Rightarrow> False) rows"
    by (cases mat) (simp_all add: square_matrix_def)
  have "\<exists>xs. rows ! i = PList xs \<and> length xs = M" if "i < M" for i
  proof -
    have "rows ! i \<in> set rows" using that r(2) by simp
    with a have "case rows ! i of PList xs \<Rightarrow> length xs = M | _ \<Rightarrow> False"
      by (simp add: list_all_iff)
    then show ?thesis by (cases "rows ! i") simp_all
  qed
  with r that show ?thesis by blast
qed

lemma square_len: "square_matrix mat M \<Longrightarrow> py_len mat = Inr M"
  by (erule square_matrixD) (simp add: py_len_def)

lemma square_row:
  assumes "square_matrix mat M" "i < M"
  shows "\<exists>xs. py_getitem mat i = Inr (PList xs) \<and> length xs = M"
  using assms(1)
proof (rule square_matrixD)
  fix rows assume r: "mat = PList rows" "length rows = M"
    and a: "\<And>i. i < M \<Longrightarrow> \<exists>xs. rows ! i = PList xs \<and> length xs = M"
  from a[OF assms(2)] obtain xs where "rows ! i = PList xs" "length xs = M" by blast
  then show ?thesis using r assms(2) by (simp add: py_getitem_def)
qed

lemma square_entry:
  assumes "square_matrix mat M" "i < M" "j < M"
  shows "\<exists>val. pae_entry mat i j = Inr val"
proof -
  from square_row[OF assms(1,2)] obtain xs where
    "py_getitem mat i = Inr (PList xs)" "length xs = M" by blast
  then show ?thesis using assms(3) by (simp add: pae_entry_def py_getitem_def)
qed

lemma pae_row_ok:
  "\<forall>j \<in> set js. \<exists>val. pae_entry mat i j = Inr val \<Longrightarrow> \<exists>G'. pae_row ca mat i js G = Inr G'"
proof (induction js arbitrary: G)
  case Nil
  then show ?case by simp
next
  case (Cons j js)
  then obtain val where val: "pae_entry mat i j = Inr val" by auto
  have rest: "\<forall>j \<in> set js. \<exists>val. pae_entry mat i j = Inr val" using Cons.prems by simp
  show ?case
  proof (cases "i = j")
    case True
    with Cons.IH[OF rest] show ?thesis by simp
  next
    case False
    show ?thesis
    proof (cases "map_of ca (int i + 1)")
      case None
      with Cons.IH[OF rest] False val show ?thesis by simp
    next
      case (Some u)
      note u = this
      show ?thesis
      proof (cases "map_of ca (int j + 1)")
        case None
        with Cons.IH[OF rest] False val u show ?thesis by simp
      next
        case (Some v)
        with Cons.IH[OF rest] False val u show ?thesis by simp
      qed
    qed
  qed
qed

lemma pae_rows_ok:
  "square_matrix mat M \<Longrightarrow> \<forall>i \<in> set rest. i < M \<Longrightarrow> \<exists>G'. pae_rows ca mat rest G = Inr G'"
proof (induction rest arbitrary: G)
  case Nil
  then show ?case by simp
next
  case (Cons i rest)
  have i: "i < M" and rest: "\<forall>i \<in> set rest. i < M" using Cons.prems(2) by simp_all
  from square_row[OF Cons.prems(1) i] obtain xs where
    row: "py_getitem mat i = Inr (PList xs)" and len: "length xs = M" by blast
  have n: "py_len (PList xs) = Inr M" using len by (simp add: py_len_def)
  have "\<forall>j \<in> set [0..<M]. \<exists>val. pae_entry mat i j = Inr val"
    using square_entry[OF Cons.prems(1) i] by simp
  from pae_row_ok[OF this] obtain G1 where r: "pae_row ca mat i [0..<M] G = Inr G1" by blast
  from Cons.IH[OF Cons.prems(1) rest] obtain G' where "pae_rows ca mat rest G1 = Inr G'" by blast
  with row n r show ?case by simp
qed

lemma upt_split: "b < M \<Longrightarrow> [0..<M] = [0..<b] @ b # [Suc b..<M]"
  by (metis le0 less_imp_le_nat upt_conv_Cons le_add_diff_inverse upt_add_eq_append)

lemma pae_stage:
  assumes wf: "wf_mol m"
    and ca: "\<forall>res \<in> set (all_residues s). find (\<lambda>a. bp_id a = ''CA'') (child_atoms res) \<noteq> None"
    and mat: "get_pae_matrix pae_data = Inr mat" and sq: "square_matrix mat M"
  obtains G2 G3 G4 G5 where
    "assemble m s = Inr (G2, residue_to_ca_atom m s)"
    "backbone m s = Inr (G3, residue_to_ca_atom m s)"
    "add_plddt s (atoms m) G3 = Inr G4"
    "add_pae (Inr pae_data) (residue_to_ca_atom m s) G4 = Inr G5"
    "graph_after_pae m s (Inr pae_data) = Inr G5"
    "pae_rows (residue_to_ca_atom m s) mat [0..<M] G4 = Inr G5"
    "adj G4 = adj G3" "nodes G5 = nodes G4"
    "map fst (nodes G4) = [0..<length (atoms m)]"
    "ca_ok (serial_atom_dict s) (atoms m) (residue_to_ca_atom m s)"
    "sym_adj G2" "sym_adj G3" "sym_adj G4" "sym_adj G5" "no_pae G4"
proof -
  let ?ca = "residue_to_ca_atom m s"
  from backbone_ok[OF wf, of s] obtain G2 G3' where
    a: "assemble m s = Inr (G2, ?ca)" and b': "backbone m s = Inr (G3', ?ca)" and
    c: "ca_ok (serial_atom_dict s) (atoms m) ?ca" and s2: "sym_adj G2" and s3': "sym_adj G3'"
    by blast
  from plddt_ok[OF wf ca] obtain G3 G4 pd where
    b: "backbone m s = Inr (G3, ?ca)" and ap: "add_plddt s (atoms m) G3 = Inr G4" and
    k4: "map fst (nodes G4) = [0..<length (atoms m)]" and a4: "adj G4 = adj G3"
    by blast
  have "G3' = G3" using b b' by simp
  then have s3: "sym_adj G3" using s3' by simp
  have s4: "sym_adj G4" using s3 a4 by (simp add: sym_adj_def)
  have "no_pae G3" using b by (rule backbone_no_pae)
  then have np: "no_pae G4" using a4 by (simp add: no_pae_def edge_attr_def)
  have "\<forall>i \<in> set [0..<M]. i < M" by simp
  from pae_rows_ok[OF sq this] obtain G5 where
    r: "pae_rows ?ca mat [0..<M] G4 = Inr G5" by blast
  have p: "add_pae (Inr pae_data) ?ca G4 = Inr G5"
    by (simp add: add_pae_def mat square_len[OF sq] r)
  have g: "graph_after_pae m s (Inr pae_data) = Inr G5"
    by (simp add: graph_after_pae_def b ap p)
  have n5: "nodes G5 = nodes G4" using r c k4 by (rule pae_rows_nodes)
  have s5: "sym_adj G5" using r s4 by (rule pae_rows_sym)
  from a b ap p g r a4 n5 k4 c s2 s3 s4 s5 np show ?thesis by (rule that)
qed

lemma pae_last_write:
  assumes r: "pae_rows ca mat [0..<M] G = Inr G'" and c: "ca_ok sad as ca"
    and sq: "square_matrix mat M"
    and ab: "a < b" "b < M"
    and u: "map_of ca (int a + 1) = Some u" and v: "map_of ca (int b + 1) = Some v"
  shows "\<exists>val. pae_entry mat b a = Inr val \<and>
           edge_attr G' u v ''pae'' = Some val \<and> edge_attr G' v u ''pae'' = Some val"
proof -
  have a: "a < M" using ab by simp
  from square_entry[OF sq ab(2) a] obtain val where val: "pae_entry mat b a = Inr val" by blast
  from square_row[OF sq ab(2)] obtain xs where
    row: "py_getitem mat b = Inr (PList xs)" and len: "length xs = M" by blast
  have n: "py_len (PList xs) = Inr M" using len by (simp add: py_len_def)
  have r': "pae_rows ca mat ([0..<b] @ b # [Suc b..<M]) G = Inr G'"
    using r upt_split[OF ab(2)] by simp
  have "a \<noteq> b" "a \<notin> set [Suc b..<M]" "b \<notin> set [Suc b..<M]" using ab by simp_all
  from pae_rows_hit[OF r' c u v this row n a val] val show ?thesis by blast
qed

lemma ex_get_pae_matrix: "get_pae_matrix ex_pae = Inr ex_matrix"
  by (simp add: get_pae_matrix_def ex_pae_def py_getitem_def py_contains_def py_getitem_str_def)

lemma ex_square: "square_matrix ex_matrix 2"
  by (simp add: square_matrix_def ex_matrix_def)

lemma ex_entries:
  "pae_entry ex_matrix 0 1 = Inr (PFloat 1.5)" "pae_entry ex_matrix 1 0 = Inr (PFloat 2.5)"
  by (simp_all add: pae_entry_def ex_matrix_def py_getitem_def)

lemma ex_entries_Suc:
  "pae_entry ex_matrix 0 (Suc 0) = Inr (PFloat 1.5)"
  "pae_entry ex_matrix (Suc 0) 0 = Inr (PFloat 2.5)"
  using ex_entries by simp_all

lemma ex_pae_edge:
  "\<exists>G5. graph_after_pae ex_mol ex_structure (Inr ex_pae) = Inr G5 \<and>
         edge_attr G5 0 1 ''pae'' = Some (PFloat 2.5)"
proof -
  from ex_wf ex_all_ca ex_get_pae_matrix ex_square obtain G2 G3 G4 G5 where
    g: "graph_after_pae ex_mol ex_structure (Inr ex_pae) = Inr G5" and
    r: "pae_rows (residue_to_ca_atom ex_mol ex_structure) ex_matrix [0..<2] G4 = Inr G5" and
    c: "ca_ok (serial_atom_dict ex_structure) (atoms ex_mol)
          (residue_to_ca_atom ex_mol ex_structure)"
    by (rule pae_stage)
  have "\<exists>val. pae_entry ex_matrix 1 0 = Inr val \<and>
           edge_attr G5 0 1 ''pae'' = Some val \<and> edge_attr G5 1 0 ''pae'' = Some val"
    by (rule pae_last_write[OF r c ex_square]) (simp_all add: ex_ca)
  with g show ?thesis by (auto simp: ex_entries_Suc)
qed

lemma ex_backbone_edge:
  assumes "backbone ex_mol ex_structure = Inr (G3, ca)"
  shows "edge_attr G3 0 1 ''bond_idx'' = Some (PInt 0)"
proof -
  let ?ca = "residue_to_ca_atom ex_mol ex_structure"
  from backbone_ok[OF ex_wf, of ex_structure] obtain G2 G3' where
    b: "backbone ex_mol ex_structure = Inr (G3', ?ca)" and
    l: "link_backbone ?ca ?ca G2 = Inr G3'" and
    loc: "ca_located (GetAtomPosition ex_mol) ?ca G2"
    by blast
  have eq: "G3' = G3" using b assms by simp
  have "backbone_edge (GetAtomPosition ex_mol) G3' 0 1 \<and>
        backbone_edge (GetAtomPosition ex_mol) G3' 1 0"
    by (rule link_backbone_links[OF l loc subset_refl, of 1]) (simp_all add: ex_ca)
  then show ?thesis unfolding eq by (simp add: backbone_edge_def)
qed

section \<open>DSSP\<close>

lemma dssp_attrs_dom: "dom (dssp_attrs r) = set dssp_fields"
  by (simp add: dssp_attrs_def dssp_fields_def insert_commute)

lemma dssp_fields_count: "length dssp_fields = 12 \<and> distinct dssp_fields"
  by (simp add: dssp_fields_def)

lemma atom_attrs_dom:
  "dom (atom_attrs sad a) =
     {''atom_name'', ''atomic_number'', ''atom_coords'', ''degree'', ''aromatic'',
      ''residue_number'', ''residue_name''}"
  by (simp add: atom_attrs_def insert_commute)

lemma atom_attrs_no_dssp:
  "k \<in> set dssp_fields \<Longrightarrow> ((atom_attrs sad a)(''plddt'' \<mapsto> v)) k = None"
proof -
  assume k: "k \<in> set dssp_fields"
  have "k \<notin> dom (atom_attrs sad a)"
    using k unfolding atom_attrs_dom by (auto simp: dssp_fields_def)
  moreover have "k \<noteq> ''plddt''" using k by (auto simp: dssp_fields_def)
  ultimately show ?thesis by (simp add: domIff)
qed

lemma enrich_nodes_Cons_cases:
  assumes "enrich_nodes dd ((n, d) # rest) = Inr ns'"
  obtains rv k rest' where "d ''residue_number'' = Some rv" "int_key rv = Inr k"
    "enrich_nodes dd rest = Inr rest'"
    "ns' = (n, (case (case k of None \<Rightarrow> None | Some r \<Rightarrow> dd r) of
                  None \<Rightarrow> d | Some rec \<Rightarrow> d ++ dssp_attrs rec)) # rest'"
proof (cases "d ''residue_number''")
  case None
  with assms show ?thesis by simp
next
  case (Some rv)
  note rv = this
  show ?thesis
  proof (cases "int_key rv")
    case (Inl e)
    with assms rv show ?thesis by simp
  next
    case (Inr k)
    note k = this
    show ?thesis
    proof (cases "enrich_nodes dd rest")
      case (Inl e)
      with assms rv k show ?thesis by simp
    next
      case (Inr rest')
      with assms rv k that show ?thesis by simp
    qed
  qed
qed

lemma enrich_nodes_keys: "enrich_nodes dd ns = Inr ns' \<Longrightarrow> map fst ns' = map fst ns"
proof (induction ns arbitrary: ns')
  case Nil
  then show ?case by simp
next
  case (Cons p ns)
  obtain n d where p: "p = (n, d)" by (cases p)
  from Cons.prems[unfolded p] show ?case
  proof (cases rule: enrich_nodes_Cons_cases)
    case (1 rv k rest')
    from Cons.IH[OF 1(3)] 1(4) p show ?thesis by simp
  qed
qed

lemma enrich_nodes_data:
  "enrich_nodes dd ns = Inr ns' \<Longrightarrow> map_of ns i = Some d \<Longrightarrow>
   d ''residue_number'' = Some (PInt r) \<Longrightarrow>
   map_of ns' i = Some (case dd r of None \<Rightarrow> d | Some rec \<Rightarrow> d ++ dssp_attrs rec)"
proof (induction ns arbitrary: ns')
  case Nil
  then show ?case by simp
next
  case (Cons p ns)
  obtain n d0 where p: "p = (n, d0)" by (cases p)
  from Cons.prems(1)[unfolded p] show ?case
  proof (cases rule: enrich_nodes_Cons_cases)
    case (1 rv k rest')
    show ?thesis
    proof (cases "i = n")
      case True
      then have "d0 = d" using Cons.prems(2) p by simp
      then have "rv = PInt r" using 1(1) Cons.prems(3) by simp
      then have "k = Some r" using 1(2) by (simp add: int_key_def)
      then show ?thesis using 1(4) True \<open>d0 = d\<close> by (simp split: option.splits)
    next
      case False
      then have "map_of ns i = Some d" using Cons.prems(2) p by simp
      from Cons.IH[OF 1(3) this Cons.prems(3)] False 1(4) show ?thesis by simp
    qed
  qed
qed

lemma enrich_nodes_ok:
  "\<forall>(n, d) \<in> set ns. \<exists>r. d ''residue_number'' = Some (PInt r) \<Longrightarrow>
   \<exists>ns'. enrich_nodes dd ns = Inr ns'"
proof (induction ns)
  case Nil
  then show ?case by simp
next
  case (Cons p ns)
  obtain n d where p: "p = (n, d)" by (cases p)
  from Cons.prems p obtain r where r: "d ''residue_number'' = Some (PInt r)" by auto
  have "\<forall>(n, d) \<in> set ns. \<exists>r. d ''residue_number'' = Some (PInt r)" using Cons.prems by simp
  from Cons.IH[OF this] obtain ns' where "enrich_nodes dd ns = Inr ns'" by blast
  then show ?case using p r by (simp add: int_key_def)
qed

lemma add_dssp_nodes:
  assumes k: "map fst (nodes G5) = [0..<N]"
    and d: "\<forall>i < N. map_of (nodes G5) i = Some ((atom_attrs sad (as ! i))(''plddt'' \<mapsto> v i))"
  shows "\<exists>G6. add_dssp (Inr dssp) G5 = Inr G6 \<and> adj G6 = adj G5 \<and>
           map fst (nodes G6) = [0..<N] \<and>
           (\<forall>i < N. map_of (nodes G6) i =
              Some (case run_dssp dssp (residue_number (as ! i)) of
                      None \<Rightarrow> (atom_attrs sad (as ! i))(''plddt'' \<mapsto> v i)
                    | Some rec \<Rightarrow> (atom_attrs sad (as ! i))(''plddt'' \<mapsto> v i) ++ dssp_attrs rec))"
proof -
  have "\<forall>(n, dt) \<in> set (nodes G5). \<exists>r. dt ''residue_number'' = Some (PInt r)"
  proof (intro ballI, clarify)
    fix n dt assume m: "(n, dt) \<in> set (nodes G5)"
    have dist: "distinct (map fst (nodes G5))" unfolding k by simp
    then have mo: "map_of (nodes G5) n = Some dt" using m by (simp add: map_of_eq_Some_iff)
    have "n \<in> set (map fst (nodes G5))" using m by force
    then have "n < N" unfolding k by simp
    with d mo have "dt = (atom_attrs sad (as ! n))(''plddt'' \<mapsto> v n)" by auto
    then show "\<exists>r. dt ''residue_number'' = Some (PInt r)"
      by (simp add: atom_attrs_residue_number)
  qed
  from enrich_nodes_ok[OF this] obtain ns where
    e: "enrich_nodes (run_dssp dssp) (nodes G5) = Inr ns" by blast
  let ?G6 = "G5\<lparr>nodes := ns\<rparr>"
  have run: "add_dssp (Inr dssp) G5 = Inr ?G6" by (simp add: add_dssp_def e)
  have keys: "map fst (nodes ?G6) = [0..<N]" using enrich_nodes_keys[OF e] k by simp
  have data: "map_of (nodes ?G6) i =
              Some (case run_dssp dssp (residue_number (as ! i)) of
                      None \<Rightarrow> (atom_attrs sad (as ! i))(''plddt'' \<mapsto> v i)
                    | Some rec \<Rightarrow> (atom_attrs sad (as ! i))(''plddt'' \<mapsto> v i) ++ dssp_attrs rec)"
    if "i < N" for i
  proof -
    from d that have mo: "map_of (nodes G5) i = Some ((atom_attrs sad (as ! i))(''plddt'' \<mapsto> v i))"
      by auto
    have rn: "((atom_attrs sad (as ! i))(''plddt'' \<mapsto> v i)) ''residue_number''
                = Some (PInt (residue_number (as ! i)))"
      by (simp add: atom_attrs_residue_number)
    from enrich_nodes_data[OF e mo rn] show ?thesis by simp
  qed
  from run keys data show ?thesis by auto
qed

lemma dssp_stage:
  assumes wf: "wf_mol m"
    and ca: "\<forall>res \<in> set (all_residues s). find (\<lambda>a. bp_id a = ''CA'') (child_atoms res) \<noteq> None"
  obtains G3 G4 pd where
    "backbone m s = Inr (G3, residue_to_ca_atom m s)"
    "plddt_dict s = Inr pd"
    "add_plddt s (atoms m) G3 = Inr G4"
    "map fst (nodes G4) = [0..<length (atoms m)]"
    "\<And>i. i < length (atoms m) \<Longrightarrow>
       map_of (nodes G4) i =
         Some ((atom_attrs (serial_atom_dict s) (atoms m ! i))
                 (''plddt'' \<mapsto> plddt_val (pd (residue_number (atoms m ! i)))))"
    "\<And>G5 dssp. nodes G5 = nodes G4 \<Longrightarrow>
       \<exists>G6. add_dssp (Inr dssp) G5 = Inr G6 \<and> adj G6 = adj G5 \<and>
         map fst (nodes G6) = [0..<length (atoms m)] \<and>
         (\<forall>i < length (atoms m). map_of (nodes G6) i =
            Some (case run_dssp dssp (residue_number (atoms m ! i)) of
                    None \<Rightarrow> (atom_attrs (serial_atom_dict s) (atoms m ! i))
                               (''plddt'' \<mapsto> plddt_val (pd (residue_number (atoms m ! i))))
                  | Some rec \<Rightarrow>
                      (atom_attrs (serial_atom_dict s) (atoms m ! i))
                        (''plddt'' \<mapsto> plddt_val (pd (residue_number (atoms m ! i))))
                      ++ dssp_attrs rec))"
proof -
  from plddt_ok[OF wf ca] obtain G3 G4 pd where
    b: "backbone m s = Inr (G3, residue_to_ca_atom m s)" and
    pd: "plddt_dict s = Inr pd" and ap: "add_plddt s (atoms m) G3 = Inr G4" and
    k4: "map fst (nodes G4) = [0..<length (atoms m)]" and
    m4: "\<forall>i < length (atoms m).
              map_of (nodes G4) i =
                Some ((atom_attrs (serial_atom_dict s) (atoms m ! i))
                        (''plddt'' \<mapsto> plddt_val (pd (residue_number (atoms m ! i)))))"
    by blast
  have enrich: "\<exists>G6. add_dssp (Inr dssp) G5 = Inr G6 \<and> adj G6 = adj G5 \<and>
         map fst (nodes G6) = [0..<length (atoms m)] \<and>
         (\<forall>i < length (atoms m). map_of (nodes G6) i =
            Some (case run_dssp dssp (residue_number (atoms m ! i)) of
                    None \<Rightarrow> (atom_attrs (serial_atom_dict s) (atoms m ! i))
                               (''plddt'' \<mapsto> plddt_val (pd (residue_number (atoms m ! i))))
                  | Some rec \<Rightarrow>
                      (atom_attrs (serial_atom_dict s) (atoms m ! i))
                        (''plddt'' \<mapsto> plddt_val (pd (residue_number (atoms m ! i))))
                      ++ dssp_attrs rec))"
    if n: "nodes G5 = nodes G4" for G5 :: graph and dssp
  proof (rule add_dssp_nodes)
    show "map fst (nodes G5) = [0..<length (atoms m)]" using k4 n by simp
    show "\<forall>i<length (atoms m). map_of (nodes G5) i =
            Some ((atom_attrs (serial_atom_dict s) (atoms m ! i))
                    (''plddt'' \<mapsto> plddt_val (pd (residue_number (atoms m ! i)))))"
      using m4 n by simp
  qed
  from b pd ap k4 m4 enrich show ?thesis by (intro that) auto
qed

lemma ex_run_dssp:
  "run_dssp [ex_dssp_res 1] 1 = Some (ex_dssp_res 1)" "run_dssp [ex_dssp_res 1] 2 = None"
  "run_dssp [] r = None"
  by (simp_all add: run_dssp_def ex_dssp_res_def)

lemma ex_atoms:
  "length (atoms ex_mol) = 2" "residue_number (atoms ex_mol ! 0) = 1"
  "residue_number (atoms ex_mol ! 1) = 2" "residue_number (atoms ex_mol ! Suc 0) = 2"
  by (simp_all add: ex_mol_def)

lemma base_dom:
  "dom ((atom_attrs sad a)(''plddt'' \<mapsto> v)) \<inter> set dssp_fields = {}"
proof -
  have "k \<notin> dom ((atom_attrs sad a)(''plddt'' \<mapsto> v))" if "k \<in> set dssp_fields" for k
    using atom_attrs_no_dssp[OF that, of sad a v] by (simp only: domIff not_not)
  then show ?thesis by blast
qed

lemma ex_dssp_keys:
  "node_keys_after_dssp ex_mol ex_structure (Inr [ex_dssp_res 1]) 0
     - node_keys_after_dssp ex_mol ex_structure (Inr []) 0 = set dssp_fields"
proof (rule dssp_stage[OF ex_wf ex_all_ca])
  fix G3 G4 pd
  assume b: "backbone ex_mol ex_structure = Inr (G3, residue_to_ca_atom ex_mol ex_structure)"
    and ap: "add_plddt ex_structure (atoms ex_mol) G3 = Inr G4"
    and en: "\<And>G5 dssp. nodes G5 = nodes G4 \<Longrightarrow>
       \<exists>G6. add_dssp (Inr dssp) G5 = Inr G6 \<and> adj G6 = adj G5 \<and>
         map fst (nodes G6) = [0..<length (atoms ex_mol)] \<and>
         (\<forall>i < length (atoms ex_mol). map_of (nodes G6) i =
            Some (case run_dssp dssp (residue_number (atoms ex_mol ! i)) of
                    None \<Rightarrow> (atom_attrs (serial_atom_dict ex_structure) (atoms ex_mol ! i))
                               (''plddt'' \<mapsto> plddt_val (pd (residue_number (atoms ex_mol ! i))))
                  | Some rec \<Rightarrow>
                      (atom_attrs (serial_atom_dict ex_structure) (atoms ex_mol ! i))
                        (''plddt'' \<mapsto> plddt_val (pd (residue_number (atoms ex_mol ! i))))
                      ++ dssp_attrs rec))"
  let ?base = "(atom_attrs (serial_atom_dict ex_structure) (atoms ex_mol ! 0))
                 (''plddt'' \<mapsto> plddt_val (pd 1))"
  from en[OF refl, of "[ex_dssp_res 1]"] obtain G6 where
    r6: "add_dssp (Inr [ex_dssp_res 1]) G4 = Inr G6" and
    d6: "map_of (nodes G6) 0 = Some (?base ++ dssp_attrs (ex_dssp_res 1))"
    by (auto simp: ex_atoms ex_run_dssp)
  from en[OF refl, of "[]"] obtain G6' where
    r6': "add_dssp (Inr []) G4 = Inr G6'" and
    d6': "map_of (nodes G6') 0 = Some ?base"
    by (auto simp: ex_atoms ex_run_dssp)
  have 1: "node_keys_after_dssp ex_mol ex_structure (Inr [ex_dssp_res 1]) 0
             = dom ?base \<union> set dssp_fields"
    by (simp add: node_keys_after_dssp_def graph_after_dssp_def b ap r6 d6 dssp_attrs_dom Un_commute)
  have 2: "node_keys_after_dssp ex_mol ex_structure (Inr []) 0 = dom ?base"
    by (simp add: node_keys_after_dssp_def graph_after_dssp_def b ap r6' d6')
  show ?thesis
    unfolding 1 2
    using base_dom[of "serial_atom_dict ex_structure" "atoms ex_mol ! 0" "plddt_val (pd 1)"]
    by blast
qed

section \<open>The job\<close>

lemma add_bonds_wf:
  "add_bonds as bs G = Inr G' \<Longrightarrow>
   \<forall>b \<in> snd ` set bs. begin_atom b < length as \<and> end_atom b < length as"
proof (induction as bs G rule: add_bonds.induct)
  case (1 as G)
  then show ?case by simp
next
  case (2 as bond_idx b rest G)
  from "2.prems"(1) obtain len where
    len: "GetBondLength as (begin_atom b) (end_atom b) = Inr len"
    and rec: "add_bonds as rest (add_edge (begin_atom b) (end_atom b) (bond_attrs bond_idx b len) G) = Inr G'"
    by (cases "GetBondLength as (begin_atom b) (end_atom b)") simp_all
  from len have "begin_atom b < length as \<and> end_atom b < length as"
    by (simp add: GetBondLength_def split: if_splits)
  with "2.IH"[OF len rec] show ?case by simp
qed

lemma backbone_wf:
  assumes "backbone m s = Inr (G3, ca)" shows "wf_mol m"
proof -
  from assms obtain G1 ca1 G2 where
    b: "add_bonds (atoms m) (enumerate 0 (bonds m)) G1 = Inr G2"
    by (auto simp: backbone_def assemble_def split: prod.splits sum.splits)
  from add_bonds_wf[OF b] show ?thesis by (simp add: wf_mol_def snd_enumerate)
qed

lemma backbone_ca:
  assumes "backbone m s = Inr (G3, ca)" shows "ca = residue_to_ca_atom m s"
proof -
  from assms obtain G2 where "assemble m s = Inr (G2, ca)"
    by (auto simp: backbone_def split: prod.splits sum.splits)
  then show ?thesis by (rule assemble_ca)
qed

lemma plddt_dict_all_ca:
  assumes "plddt_dict s = Inr pd"
  shows "\<forall>res \<in> set (all_residues s). find (\<lambda>a. bp_id a = ''CA'') (child_atoms res) \<noteq> None"
proof (intro ballI notI)
  fix res assume "res \<in> set (all_residues s)"
    "find (\<lambda>a. bp_id a = ''CA'') (child_atoms res) = None"
  then have "build_plddt_dict (all_residues s) Map.empty = Inl KeyError"
    by (rule build_plddt_dict_fails)
  with assms show False by (simp add: plddt_dict_def)
qed

lemma add_plddt_all_ca:
  assumes "add_plddt s as G = Inr G'"
  shows "\<forall>res \<in> set (all_residues s). find (\<lambda>a. bp_id a = ''CA'') (child_atoms res) \<noteq> None"
proof -
  from assms obtain pd where "plddt_dict s = Inr pd"
    by (cases "plddt_dict s") (simp_all add: add_plddt_def)
  then show ?thesis by (rule plddt_dict_all_ca)
qed

lemma add_pae_nodes:
  assumes "add_pae loaded ca G = Inr G'" "ca_ok sad as ca" "map fst (nodes G) = [0..<length as]"
  shows "nodes G' = nodes G"
proof -
  from assms(1) obtain mat n where "pae_rows ca mat [0..<n] G = Inr G'"
    by (auto simp: add_pae_def split: sum.splits)
  then show ?thesis using assms(2,3) by (rule pae_rows_nodes)
qed

lemma add_dssp_adj: "add_dssp analyzer G = Inr G' \<Longrightarrow> adj G' = adj G"
  by (auto simp: add_dssp_def split: sum.splits)

lemma coords_to_str_Cons_cases:
  assumes "coords_to_str fs ((n, d) # rest) = Inr ns'"
  obtains x y z rest' where "d ''atom_coords'' = Some (PPoint x y z)"
    "coords_to_str fs rest = Inr rest'"
    "ns' = (n, d(''atom_coords'' \<mapsto> PStr (fs x @ '','' @ fs y @ '','' @ fs z))) # rest'"
proof (cases "d ''atom_coords''")
  case None
  with assms show ?thesis by simp
next
  case (Some c)
  show ?thesis
  proof (cases c)
    case (PPoint x y z)
    note c = this
    show ?thesis
    proof (cases "coords_to_str fs rest")
      case (Inl e)
      with assms Some c show ?thesis by simp
    next
      case (Inr rest')
      with assms Some c that show ?thesis by simp
    qed
  qed (use assms Some in simp_all)
qed

lemma coords_to_str_keys: "coords_to_str fs ns = Inr ns' \<Longrightarrow> map fst ns' = map fst ns"
proof (induction ns arbitrary: ns')
  case Nil
  then show ?case by simp
next
  case (Cons p ns)
  obtain n d where p: "p = (n, d)" by (cases p)
  from Cons.prems[unfolded p] show ?case
  proof (cases rule: coords_to_str_Cons_cases)
    case (1 x y z rest')
    from Cons.IH[OF 1(2)] 1(3) p show ?thesis by simp
  qed
qed

lemma coords_to_str_data:
  "coords_to_str fs ns = Inr ns' \<Longrightarrow> map_of ns i = Some d \<Longrightarrow> k \<noteq> ''atom_coords'' \<Longrightarrow>
   \<exists>d'. map_of ns' i = Some d' \<and> d' k = d k"
proof (induction ns arbitrary: ns')
  case Nil
  then show ?case by simp
next
  case (Cons p ns)
  obtain n d0 where p: "p = (n, d0)" by (cases p)
  from Cons.prems(1)[unfolded p] show ?case
  proof (cases rule: coords_to_str_Cons_cases)
    case (1 x y z rest')
    show ?thesis
    proof (cases "i = n")
      case True
      then have "d0 = d" using Cons.prems(2) p by simp
      then show ?thesis using 1(3) True Cons.prems(3) by simp
    next
      case False
      then have "map_of ns i = Some d" using Cons.prems(2) p by simp
      from Cons.IH[OF 1(2) this Cons.prems(3)] False 1(3) show ?thesis by simp
    qed
  qed
qed

lemma stringify_coords_nodes:
  assumes "stringify_coords fs G = Inr G'"
  shows "map fst (nodes G') = map fst (nodes G)" "adj G' = adj G"
    "map_of (nodes G) i = Some d \<Longrightarrow> k \<noteq> ''atom_coords'' \<Longrightarrow>
     \<exists>d'. map_of (nodes G') i = Some d' \<and> d' k = d k"
proof -
  from assms obtain ns where c: "coords_to_str fs (nodes G) = Inr ns" and g: "G' = G\<lparr>nodes := ns\<rparr>"
    by (cases "coords_to_str fs (nodes G)") (auto simp: stringify_coords_def)
  show "map fst (nodes G') = map fst (nodes G)" using coords_to_str_keys[OF c] g by simp
  show "adj G' = adj G" using g by simp
  show "map_of (nodes G) i = Some d \<Longrightarrow> k \<noteq> ''atom_coords'' \<Longrightarrow>
     \<exists>d'. map_of (nodes G') i = Some d' \<and> d' k = d k"
    using coords_to_str_data[OF c] g by simp
qed

lemma build_graph_BuiltE:
  assumes "build_graph fs files file_name include_pae = Built G7"
  obtains m s G3 ca G4 G5 G6 where
    "MolFromPDBFile files = Some m" "get_structure files = Inr s"
    "backbone m s = Inr (G3, ca)" "add_plddt s (atoms m) G3 = Inr G4"
    "(if include_pae then add_pae (json_load files) ca G4 else Inr G4) = Inr G5"
    "add_dssp (DSSP files) G5 = Inr G6" "stringify_coords fs G6 = Inr G7"
proof (cases "MolFromPDBFile files")
  case None
  with assms show ?thesis by (simp add: build_graph_def)
next
  case (Some m)
  note m = this
  show ?thesis
  proof (cases "get_structure files")
    case (Inl e)
    with assms m show ?thesis by (simp add: build_graph_def)
  next
    case (Inr s)
    note s = this
    show ?thesis
    proof (cases "backbone m s")
      case (Inl e)
      with assms m s show ?thesis by (simp add: build_graph_def)
    next
      case (Inr p)
      obtain G3 ca where p: "p = (G3, ca)" by (cases p)
      note b = Inr[unfolded p]
      show ?thesis
      proof (cases "add_plddt s (atoms m) G3")
        case (Inl e)
        with assms m s b show ?thesis by (simp add: build_graph_def)
      next
        case (Inr G4)
        note g4 = this
        show ?thesis
        proof (cases "if include_pae then add_pae (json_load files) ca G4 else Inr G4")
          case (Inl e)
          with assms m s b g4 show ?thesis by (simp add: build_graph_def)
        next
          case (Inr G5)
          note g5 = this
          show ?thesis
          proof (cases "add_dssp (DSSP files) G5")
            case (Inl e)
            with assms m s b g4 g5 show ?thesis by (simp add: build_graph_def)
          next
            case (Inr G6)
            note g6 = this
            show ?thesis
            proof (cases "stringify_coords fs G6")
              case (Inl e)
              with assms m s b g4 g5 g6 show ?thesis by (simp add: build_graph_def)
            next
              case (Inr G7')
              with assms m s b g4 g5 g6 have "G7' = G7" by (simp add: build_graph_def)
              with Inr m s b g4 g5 g6 that show ?thesis by blast
            qed
          qed
        qed
      qed
    qed
  qed
qed

lemma base_identity:
  "((atom_attrs sad a)(''plddt'' \<mapsto> v)) ''atomic_number'' = Some (PInt (atomic_num a))"
  "((atom_attrs sad a)(''plddt'' \<mapsto> v) ++ dssp_attrs rec) ''atomic_number'' = Some (PInt (atomic_num a))"
  "((atom_attrs sad a)(''plddt'' \<mapsto> v)) ''residue_number'' = Some (PInt (residue_number a))"
  "((atom_attrs sad a)(''plddt'' \<mapsto> v) ++ dssp_attrs rec) ''residue_number'' = Some (PInt (residue_number a))"
  by (simp_all add: atom_attrs_def dssp_attrs_def map_add_def)

lemma built_nodes:
  assumes bg: "build_graph fs files file_name include_pae = Built G7"
    and m: "MolFromPDBFile files = Some m" and s: "get_structure files = Inr s"
  shows "map fst (nodes G7) = [0..<length (atoms m)] \<and>
         (\<forall>i < length (atoms m). \<exists>d.
            map_of (nodes G7) i = Some d \<and>
            d ''atomic_number'' = Some (PInt (atomic_num (atoms m ! i))) \<and>
            d ''residue_number'' = Some (PInt (residue_number (atoms m ! i))))"
  using bg
proof (rule build_graph_BuiltE)
  fix m' s' G3 ca G4 G5 G6
  assume m': "MolFromPDBFile files = Some m'" and s': "get_structure files = Inr s'"
    and b: "backbone m' s' = Inr (G3, ca)" and ap: "add_plddt s' (atoms m') G3 = Inr G4"
    and pa: "(if include_pae then add_pae (json_load files) ca G4 else Inr G4) = Inr G5"
    and ds: "add_dssp (DSSP files) G5 = Inr G6" and st: "stringify_coords fs G6 = Inr G7"
  have eq: "m' = m" "s' = s" using m m' s s' by simp_all
  note b = b[unfolded eq] and ap = ap[unfolded eq]
  have wf: "wf_mol m" using b by (rule backbone_wf)
  have ca: "ca = residue_to_ca_atom m s" using b by (rule backbone_ca)
  have all: "\<forall>res \<in> set (all_residues s). find (\<lambda>a. bp_id a = ''CA'') (child_atoms res) \<noteq> None"
    using ap by (rule add_plddt_all_ca)
  obtain dssp where dssp: "DSSP files = Inr dssp"
    using ds by (cases "DSSP files") (simp_all add: add_dssp_def)
  from backbone_ok[OF wf, of s] have cok: "ca_ok (serial_atom_dict s) (atoms m) ca"
    unfolding ca by blast
  show ?thesis
  proof (rule dssp_stage[OF wf all])
    fix G3' G4' pd
    assume b': "backbone m s = Inr (G3', residue_to_ca_atom m s)"
      and ap': "add_plddt s (atoms m) G3' = Inr G4'"
      and k4: "map fst (nodes G4') = [0..<length (atoms m)]"
      and en: "\<And>G5 dssp. nodes G5 = nodes G4' \<Longrightarrow>
       \<exists>G6. add_dssp (Inr dssp) G5 = Inr G6 \<and> adj G6 = adj G5 \<and>
         map fst (nodes G6) = [0..<length (atoms m)] \<and>
         (\<forall>i < length (atoms m). map_of (nodes G6) i =
            Some (case run_dssp dssp (residue_number (atoms m ! i)) of
                    None \<Rightarrow> (atom_attrs (serial_atom_dict s) (atoms m ! i))
                               (''plddt'' \<mapsto> plddt_val (pd (residue_number (atoms m ! i))))
                  | Some rec \<Rightarrow>
                      (atom_attrs (serial_atom_dict s) (atoms m ! i))
                        (''plddt'' \<mapsto> plddt_val (pd (residue_number (atoms m ! i))))
                      ++ dssp_attrs rec))"
    have "G3' = G3" using b b' by simp
    then have "G4' = G4" using ap ap' by simp
    note k4 = k4[unfolded \<open>G4' = G4\<close>] and en = en[unfolded \<open>G4' = G4\<close>]
    have n5: "nodes G5 = nodes G4"
    proof (cases include_pae)
      case True
      with pa have "add_pae (json_load files) ca G4 = Inr G5" by simp
      then show ?thesis using cok k4 by (rule add_pae_nodes)
    next
      case False
      with pa show ?thesis by simp
    qed
    from en[OF n5, of dssp] ds dssp have
      k6: "map fst (nodes G6) = [0..<length (atoms m)]" and
      d6: "\<forall>i < length (atoms m). map_of (nodes G6) i =
            Some (case run_dssp dssp (residue_number (atoms m ! i)) of
                    None \<Rightarrow> (atom_attrs (serial_atom_dict s) (atoms m ! i))
                               (''plddt'' \<mapsto> plddt_val (pd (residue_number (atoms m ! i))))
                  | Some rec \<Rightarrow>
                      (atom_attrs (serial_atom_dict s) (atoms m ! i))
                        (''plddt'' \<mapsto> plddt_val (pd (residue_number (atoms m ! i))))
                      ++ dssp_attrs rec)"
      by auto
    have k7: "map fst (nodes G7) = [0..<length (atoms m)]"
      using stringify_coords_nodes(1)[OF st] k6 by simp
    have "\<exists>d. map_of (nodes G7) i = Some d \<and>
            d ''atomic_number'' = Some (PInt (atomic_num (atoms m ! i))) \<and>
            d ''residue_number'' = Some (PInt (residue_number (atoms m ! i)))"
      if i: "i < length (atoms m)" for i
    proof -
      let ?base = "(atom_attrs (serial_atom_dict s) (atoms m ! i))
                     (''plddt'' \<mapsto> plddt_val (pd (residue_number (atoms m ! i))))"
      define d6' where "d6' = (case run_dssp dssp (residue_number (atoms m ! i)) of
                                 None \<Rightarrow> ?base | Some rec \<Rightarrow> ?base ++ dssp_attrs rec)"
      have 1: "map_of (nodes G6) i = Some d6'" using d6 i unfolding d6'_def by blast
      have 2: "d6' ''atomic_number'' = Some (PInt (atomic_num (atoms m ! i)))"
        unfolding d6'_def
        by (cases "run_dssp dssp (residue_number (atoms m ! i))") (simp_all only: option.case base_identity)
      have 3: "d6' ''residue_number'' = Some (PInt (residue_number (atoms m ! i)))"
        unfolding d6'_def
        by (cases "run_dssp dssp (residue_number (atoms m ! i))") (simp_all only: option.case base_identity)
      from stringify_coords_nodes(3)[OF st 1, of "''atomic_number''"]
      obtain d where a: "map_of (nodes G7) i = Some d" "d ''atomic_number'' = d6' ''atomic_number''"
        by auto
      from stringify_coords_nodes(3)[OF st 1, of "''residue_number''"] a(1)
      have "d ''residue_number'' = d6' ''residue_number''" by auto
      with a 2 3 show ?thesis by simp
    qed
    with k7 show ?thesis by blast
  qed
qed

lemma coords_to_str_ok:
  "\<forall>(n, d) \<in> set ns. \<exists>x y z. d ''atom_coords'' = Some (PPoint x y z) \<Longrightarrow>
   \<exists>ns'. coords_to_str fs ns = Inr ns'"
proof (induction ns)
  case Nil
  then show ?case by simp
next
  case (Cons p ns)
  obtain n d where p: "p = (n, d)" by (cases p)
  from Cons.prems p obtain x y z where c: "d ''atom_coords'' = Some (PPoint x y z)" by auto
  have "\<forall>(n, d) \<in> set ns. \<exists>x y z. d ''atom_coords'' = Some (PPoint x y z)"
    using Cons.prems by simp
  from Cons.IH[OF this] obtain ns' where "coords_to_str fs ns = Inr ns'" by blast
  then show ?case using p c by simp
qed

lemma base_coords:
  "\<exists>x y z. ((atom_attrs sad a)(''plddt'' \<mapsto> v)) ''atom_coords'' = Some (PPoint x y z)"
  "\<exists>x y z. ((atom_attrs sad a)(''plddt'' \<mapsto> v) ++ dssp_attrs rec) ''atom_coords''
             = Some (PPoint x y z)"
  by (cases "position a"; simp add: atom_attrs_def dssp_attrs_def map_add_def point_val_def)+

lemma build_ok:
  assumes m: "MolFromPDBFile files = Some m" and s: "get_structure files = Inr s"
    and wf: "wf_mol m"
    and all: "\<forall>res \<in> set (all_residues s). find (\<lambda>a. bp_id a = ''CA'') (child_atoms res) \<noteq> None"
    and dssp: "DSSP files = Inr dssp"
    and pae: "include_pae \<Longrightarrow>
       \<exists>d mat M. json_load files = Inr d \<and> get_pae_matrix d = Inr mat \<and> square_matrix mat M"
  shows "\<exists>G7. build_graph fs files file_name include_pae = Built G7"
proof (rule dssp_stage[OF wf all])
  fix G3 G4 pd
  assume b: "backbone m s = Inr (G3, residue_to_ca_atom m s)"
    and ap: "add_plddt s (atoms m) G3 = Inr G4"
    and k4: "map fst (nodes G4) = [0..<length (atoms m)]"
    and en: "\<And>G5 dssp. nodes G5 = nodes G4 \<Longrightarrow>
       \<exists>G6. add_dssp (Inr dssp) G5 = Inr G6 \<and> adj G6 = adj G5 \<and>
         map fst (nodes G6) = [0..<length (atoms m)] \<and>
         (\<forall>i < length (atoms m). map_of (nodes G6) i =
            Some (case run_dssp dssp (residue_number (atoms m ! i)) of
                    None \<Rightarrow> (atom_attrs (serial_atom_dict s) (atoms m ! i))
                               (''plddt'' \<mapsto> plddt_val (pd (residue_number (atoms m ! i))))
                  | Some rec \<Rightarrow>
                      (atom_attrs (serial_atom_dict s) (atoms m ! i))
                        (''plddt'' \<mapsto> plddt_val (pd (residue_number (atoms m ! i))))
                      ++ dssp_attrs rec))"
  have "\<exists>G5. (if include_pae then add_pae (json_load files) (residue_to_ca_atom m s) G4
               else Inr G4) = Inr G5 \<and> nodes G5 = nodes G4"
  proof (cases include_pae)
    case True
    from pae[OF True] obtain d mat M where
      j: "json_load files = Inr d" and gm: "get_pae_matrix d = Inr mat"
      and sq: "square_matrix mat M" by blast
    show ?thesis
    proof (rule pae_stage[OF wf all gm sq])
      fix G2 G3' G4' G5
      assume b': "backbone m s = Inr (G3', residue_to_ca_atom m s)"
        and ap': "add_plddt s (atoms m) G3' = Inr G4'"
        and p: "add_pae (Inr d) (residue_to_ca_atom m s) G4' = Inr G5"
        and n: "nodes G5 = nodes G4'"
      have "G3' = G3" using b b' by simp
      then have "G4' = G4" using ap ap' by simp
      with p n True j show ?thesis by simp
    qed
  next
    case False
    then show ?thesis by simp
  qed
  then obtain G5 where
    p5: "(if include_pae then add_pae (json_load files) (residue_to_ca_atom m s) G4
          else Inr G4) = Inr G5" and n5: "nodes G5 = nodes G4" by blast
  from en[OF n5, of dssp] obtain G6 where
    r6: "add_dssp (Inr dssp) G5 = Inr G6" and
    k6: "map fst (nodes G6) = [0..<length (atoms m)]" and
    d6: "\<forall>i < length (atoms m). map_of (nodes G6) i =
            Some (case run_dssp dssp (residue_number (atoms m ! i)) of
                    None \<Rightarrow> (atom_attrs (serial_atom_dict s) (atoms m ! i))
                               (''plddt'' \<mapsto> plddt_val (pd (residue_number (atoms m ! i))))
                  | Some rec \<Rightarrow>
                      (atom_attrs (serial_atom_dict s) (atoms m ! i))
                        (''plddt'' \<mapsto> plddt_val (pd (residue_number (atoms m ! i))))
                      ++ dssp_attrs rec)"
    by blast
  have "\<forall>(n, d) \<in> set (nodes G6). \<exists>x y z. d ''atom_coords'' = Some (PPoint x y z)"
  proof (intro ballI, clarify)
    fix n d assume mem: "(n, d) \<in> set (nodes G6)"
    have "distinct (map fst (nodes G6))" unfolding k6 by simp
    then have mo: "map_of (nodes G6) n = Some d" using mem by (simp add: map_of_eq_Some_iff)
    have "n \<in> set (map fst (nodes G6))" using mem by force
    then have n: "n < length (atoms m)" unfolding k6 by simp
    show "\<exists>x y z. d ''atom_coords'' = Some (PPoint x y z)"
    proof (cases "run_dssp dssp (residue_number (atoms m ! n))")
      case None
      with d6 n mo have "d = (atom_attrs (serial_atom_dict s) (atoms m ! n))
                               (''plddt'' \<mapsto> plddt_val (pd (residue_number (atoms m ! n))))"
        by simp
      then show ?thesis using base_coords(1) by simp
    next
      case (Some rec)
      with d6 n mo have "d = (atom_attrs (serial_atom_dict s) (atoms m ! n))
                               (''plddt'' \<mapsto> plddt_val (pd (residue_number (atoms m ! n))))
                             ++ dssp_attrs rec"
        by simp
      then show ?thesis using base_coords(2) by simp
    qed
  qed
  from coords_to_str_ok[OF this, of fs] obtain ns where
    "coords_to_str fs (nodes G6) = Inr ns" by blast
  then have "stringify_coords fs G6 = Inr (G6\<lparr>nodes := ns\<rparr>)"
    by (simp add: stringify_coords_def)
  then show ?thesis
    using m s b ap p5 r6 dssp by (simp add: build_graph_def)
qed

lemma ex_build: "\<exists>G7. build_graph fs ex_files file_name include_pae = Built G7"
proof (rule build_ok)
  show "MolFromPDBFile ex_files = Some ex_mol" by (simp add: ex_files_def)
  show "get_structure ex_files = Inr ex_structure" by (simp add: ex_files_def)
  show "wf_mol ex_mol" by (rule ex_wf)
  show "\<forall>res \<in> set (all_residues ex_structure).
          find (\<lambda>a. bp_id a = ''CA'') (child_atoms res) \<noteq> None" by (rule ex_all_ca)
  show "DSSP ex_files = Inr [ex_dssp_res 1]" by (simp add: ex_files_def)
  show "\<exists>d mat M. json_load ex_files = Inr d \<and> get_pae_matrix d = Inr mat \<and> square_matrix mat M"
    using ex_get_pae_matrix ex_square by (auto simp: ex_files_def)
qed

section \<open>The batch\<close>

lemma ex_names:
  "endswith ''P1.pdb'' ''.pdb''" "\<not> endswith ''P1.json'' ''.pdb''"
  "endswith ''P2.pdb'' ''.pdb''" "\<not> endswith ''P2.json'' ''.pdb''"
  "splitext_root ''P1.pdb'' = ''P1''" "splitext_root ''P2.pdb'' = ''P2''"
  "output_file_name ''P1'' = ''P1.pkl''" "output_file_name ''P2'' = ''P2.pkl''"
  by (simp_all add: endswith_def splitext_root_def output_file_name_def last_component_def)

lemma ex_tasks:
  "tasks (ex_world_with files) include_pae ex_state = [(''P1'', include_pae), (''P2'', include_pae)]"
  by (simp add: tasks_def ex_world_with_def ex_names processed_def ex_state_def)

lemma ex_inputs:
  "inputs (ex_world_with files) ''P1'' = files" "inputs (ex_world_with files) ''P2'' = ex_files"
  "float_str (ex_world_with files) = ex_float_str"
  by (simp_all add: ex_world_with_def)

lemma output_dir_say [simp]: "output_dir (say msg st) = output_dir st"
  by (simp add: say_def)

lemma job_cases:
  obtains (skipped) "output_dir st (output_file_name file_name) \<noteq> None"
      "protein_molecule_graphs w file_name include_pae st
         = (None, say (AlreadyExists (output_file_name file_name)) st)"
  | (raised) e where "output_dir st (output_file_name file_name) = None"
      "build_graph (float_str w) (inputs w file_name) file_name include_pae = Raised e"
      "protein_molecule_graphs w file_name include_pae st = (Some e, st)"
  | (aborted) msg where "output_dir st (output_file_name file_name) = None"
      "build_graph (float_str w) (inputs w file_name) file_name include_pae = Aborted msg"
      "protein_molecule_graphs w file_name include_pae st = (None, say msg st)"
  | (built) G where "output_dir st (output_file_name file_name) = None"
      "build_graph (float_str w) (inputs w file_name) file_name include_pae = Built G"
      "protein_molecule_graphs w file_name include_pae st
         = (None, st\<lparr>output_dir := (output_dir st)(output_file_name file_name \<mapsto> Pickle G)\<rparr>)"
proof (cases "output_dir st (output_file_name file_name) = None")
  case False
  then show ?thesis using skipped by (simp add: protein_molecule_graphs_def)
next
  case True
  show ?thesis
  proof (cases "build_graph (float_str w) (inputs w file_name) file_name include_pae")
    case (Raised e)
    with True raised show ?thesis by (simp add: protein_molecule_graphs_def)
  next
    case (Aborted msg)
    with True aborted show ?thesis by (simp add: protein_molecule_graphs_def)
  next
    case (Built G)
    with True built show ?thesis by (simp add: protein_molecule_graphs_def)
  qed
qed

lemma add_pae_file_error:
  "pae_file_error loaded = Some e \<Longrightarrow> add_pae loaded ca G = Inl e"
  by (auto simp: pae_file_error_def add_pae_def split: sum.splits)

lemma build_dssp_fails:
  assumes "DSSP files = Inl e"
  shows "\<forall>G. build_graph fs files file_name include_pae \<noteq> Built G"
proof (intro allI notI)
  fix G assume "build_graph fs files file_name include_pae = Built G"
  then show False
  proof (rule build_graph_BuiltE)
    fix G5 G6 assume "add_dssp (DSSP files) G5 = Inr G6"
    with assms show False by (simp add: add_dssp_def)
  qed
qed

lemma build_reaches_dssp:
  assumes "MolFromPDBFile files = Some m" "get_structure files = Inr s"
    "backbone m s = Inr (G3, ca)" "add_plddt s (atoms m) G3 = Inr G4"
    "(if include_pae then add_pae (json_load files) ca G4 else Inr G4) = Inr G5"
    "DSSP files = Inl e"
  shows "build_graph fs files file_name include_pae = Aborted (DsspFailed file_name e)"
  using assms by (simp add: build_graph_def add_dssp_def)

lemma build_reaches_pae:
  assumes "MolFromPDBFile files = Some m" "get_structure files = Inr s" "wf_mol m"
    "\<forall>res \<in> set (all_residues s). find (\<lambda>a. bp_id a = ''CA'') (child_atoms res) \<noteq> None"
    "pae_file_error (json_load files) = Some e"
  shows "build_graph fs files file_name True = Aborted (pae_handler file_name e)"
proof -
  from plddt_ok[OF assms(3,4)] obtain G3 G4 where
    "backbone m s = Inr (G3, residue_to_ca_atom m s)" "add_plddt s (atoms m) G3 = Inr G4"
    by blast
  then show ?thesis
    using assms(1,2) add_pae_file_error[OF assms(5)] by (simp add: build_graph_def)
qed

lemma build_unparsable:
  "MolFromPDBFile files = None \<Longrightarrow>
   build_graph fs files file_name include_pae = Raised AttributeError"
  by (simp add: build_graph_def)

lemma ex_files_fields:
  "MolFromPDBFile ex_files_no_dssp = Some ex_mol" "get_structure ex_files_no_dssp = Inr ex_structure"
  "DSSP ex_files_no_dssp = Inl LibraryError"
  "MolFromPDBFile ex_files_no_field = Some ex_mol" "get_structure ex_files_no_field = Inr ex_structure"
  "json_load ex_files_no_field = Inr (PList [PDict []])"
  "MolFromPDBFile ex_files_unparsable = None"
  by (simp_all add: ex_files_no_dssp_def ex_files_no_field_def ex_files_unparsable_def ex_files_def)

lemma ex_no_field: "pae_file_error (Inr (PList [PDict []])) = Some ValueError"
  by (simp add: pae_file_error_def get_pae_matrix_def py_getitem_def py_contains_def)

lemma ex_state_empty: "output_dir ex_state name = None"
  by (simp add: ex_state_def)

section \<open>Running the batch twice\<close>

lemma splitext_root_subset: "set (splitext_root f) \<subseteq> set f"
proof (cases "dropWhile (\<lambda>c. c \<noteq> CHR ''.'') (rev f)")
  case Nil
  show ?thesis unfolding splitext_root_def Nil by simp
next
  case (Cons c r)
  have "x \<in> set f" if "x \<in> set r" for x
  proof -
    from that Cons have "x \<in> set (dropWhile (\<lambda>c. c \<noteq> CHR ''.'') (rev f))" by simp
    then have "x \<in> set (rev f)" by (rule set_dropWhileD)
    then show ?thesis by simp
  qed
  then have "set (rev r) \<subseteq> set f" by auto
  then show ?thesis unfolding splitext_root_def Cons by simp
qed

lemma last_component_id: "CHR ''/'' \<notin> set f \<Longrightarrow> last_component f = f"
proof -
  assume "CHR ''/'' \<notin> set f"
  then have "\<forall>c \<in> set (rev f). c \<noteq> CHR ''/''" by auto
  then have "takeWhile (\<lambda>c. c \<noteq> CHR ''/'') (rev f) = rev f"
    by (simp only: takeWhile_eq_all_conv)
  then show ?thesis by (simp only: last_component_def rev_rev_ident)
qed

lemma task_artifact:
  "CHR ''/'' \<notin> set f \<Longrightarrow> output_file_name (splitext_root f) = splitext_root f @ ''.pkl''"
  using splitext_root_subset[of f] by (auto simp: output_file_name_def intro: last_component_id)

lemma processed_artifact:
  "processed st (r @ ''.pkl'') = (output_dir st (r @ ''.pkl'') \<noteq> None)"
  by (simp add: processed_def endswith_def)

lemma tasks_member:
  "t \<in> set (tasks w include_pae st) =
     (\<exists>file \<in> set (listdir w). endswith file ''.pdb'' \<and>
        output_dir st (splitext_root file @ ''.pkl'') = None \<and>
        t = (splitext_root file, include_pae))"
  by (auto simp: tasks_def processed_artifact)

lemma job_keeps:
  assumes "output_dir st f = Some a"
  shows "output_dir (snd (protein_molecule_graphs w file_name include_pae st)) f = Some a"
proof (cases rule: job_cases[of st file_name w include_pae])
  case skipped
  with assms show ?thesis by simp
next
  case (raised e)
  with assms show ?thesis by simp
next
  case (aborted msg)
  with assms show ?thesis by simp
next
  case (built G)
  from built(1) assms have "f \<noteq> output_file_name file_name" by auto
  with built(3) assms show ?thesis by simp
qed

lemma run_tasks_Cons_cases:
  assumes "run_tasks w ((file_name, include_pae) # rest) st = Inr st'"
  obtains st1 where "protein_molecule_graphs w file_name include_pae st = (None, st1)"
    "run_tasks w rest st1 = Inr st'"
  using assms
  by (cases "protein_molecule_graphs w file_name include_pae st")
     (auto simp: process_file_wrapper_def split: option.splits)

lemma run_tasks_keeps:
  "run_tasks w ts st = Inr st' \<Longrightarrow> output_dir st f = Some a \<Longrightarrow> output_dir st' f = Some a"
proof (induction ts arbitrary: st)
  case Nil
  then show ?case by simp
next
  case (Cons t ts)
  obtain file_name include_pae where t: "t = (file_name, include_pae)" by (cases t)
  from Cons.prems(1)[unfolded t] obtain st1 where
    j: "protein_molecule_graphs w file_name include_pae st = (None, st1)" and
    r: "run_tasks w ts st1 = Inr st'"
    by (rule run_tasks_Cons_cases)
  from job_keeps[OF Cons.prems(2), of w file_name include_pae] j
  have "output_dir st1 f = Some a" by simp
  with r show ?case by (rule Cons.IH)
qed

lemma run_tasks_absent:
  "run_tasks w ts st = Inr st' \<Longrightarrow> (file_name, include_pae) \<in> set ts \<Longrightarrow>
   output_dir st' (output_file_name file_name) = None \<Longrightarrow>
   \<exists>msg. build_graph (float_str w) (inputs w file_name) file_name include_pae = Aborted msg"
proof (induction ts arbitrary: st)
  case Nil
  then show ?case by simp
next
  case (Cons t ts)
  obtain fn ip where t: "t = (fn, ip)" by (cases t)
  from Cons.prems(1)[unfolded t] obtain st1 where
    j: "protein_molecule_graphs w fn ip st = (None, st1)" and
    r: "run_tasks w ts st1 = Inr st'"
    by (rule run_tasks_Cons_cases)
  show ?case
  proof (cases "(file_name, include_pae) \<in> set ts")
    case True
    from r True Cons.prems(3) show ?thesis by (rule Cons.IH)
  next
    case False
    with Cons.prems(2) t have eq: "fn = file_name" "ip = include_pae" by auto
    show ?thesis
    proof (cases rule: job_cases[of st file_name w include_pae])
      case skipped
      then obtain a where "output_dir st (output_file_name file_name) = Some a" by auto
      from run_tasks_keeps[OF Cons.prems(1) this] Cons.prems(3) show ?thesis by simp
    next
      case (raised e)
      with j eq show ?thesis by simp
    next
      case (aborted msg)
      then show ?thesis by blast
    next
      case (built G)
      with j eq have "output_dir st1 (output_file_name file_name) = Some (Pickle G)" by auto
      from run_tasks_keeps[OF r this] Cons.prems(3) show ?thesis by simp
    qed
  qed
qed

lemma run_tasks_aborted:
  "(\<And>t. t \<in> set ts \<Longrightarrow> output_dir st (output_file_name (fst t)) = None \<and>
      (\<exists>msg. build_graph (float_str w) (inputs w (fst t)) (fst t) (snd t) = Aborted msg)) \<Longrightarrow>
   \<exists>st''. run_tasks w ts st = Inr st'' \<and> output_dir st'' = output_dir st"
proof (induction ts arbitrary: st)
  case Nil
  then show ?case by simp
next
  case (Cons t ts)
  obtain fn ip where t: "t = (fn, ip)" by (cases t)
  from Cons.prems[of t] t obtain msg where
    n: "output_dir st (output_file_name fn) = None" and
    b: "build_graph (float_str w) (inputs w fn) fn ip = Aborted msg"
    by auto
  then have j: "protein_molecule_graphs w fn ip st = (None, say msg st)"
    by (simp add: protein_molecule_graphs_def)
  have "\<exists>st''. run_tasks w ts (say msg st) = Inr st'' \<and> output_dir st'' = output_dir (say msg st)"
  proof (rule Cons.IH)
    fix u assume "u \<in> set ts"
    then have "u \<in> set (t # ts)" by simp
    from Cons.prems[OF this]
    show "output_dir (say msg st) (output_file_name (fst u)) = None \<and>
      (\<exists>msg. build_graph (float_str w) (inputs w (fst u)) (fst u) (snd u) = Aborted msg)"
      by simp
  qed
  then show ?case by (simp add: t process_file_wrapper_def j)
qed

section \<open>Claims\<close>

text \<open>
  C7. After the backbone-linking stage, for every residue number \<open>r\<close> such that both
  \<open>r\<close> and \<open>r + 1\<close> are keys of \<^verbatim>\<open>residue_to_ca_atom\<close>, the graph has one edge
  between the two CA atoms (one attribute dictionary, the same in both directions, and the
  two atoms differ), with \<^verbatim>\<open>bond_idx\<close> 0, \<^verbatim>\<open>bond_order\<close> 0 and \<^verbatim>\<open>bond_length\<close> the
  Euclidean distance between the coordinates stored on the two nodes; and every edge the
  stage adds or changes joins the CA atoms of two residues numbered \<open>r\<close> and \<open>r + 1\<close>,
  so none bridges a gap in the numbering. The stage always completes on a molecule whose
  bonds join atoms of the molecule.
\<close>

theorem backbone_edge_correct:
  assumes "wf_mol m"
  shows "\<exists>G2 G3. assemble m s = Inr (G2, residue_to_ca_atom m s) \<and>
           backbone m s = Inr (G3, residue_to_ca_atom m s) \<and>
           (\<forall>r u v. map_of (residue_to_ca_atom m s) r = Some u \<longrightarrow>
                    map_of (residue_to_ca_atom m s) (r + 1) = Some v \<longrightarrow>
                    u \<noteq> v \<and> adj G3 (u, v) = adj G3 (v, u) \<and>
                    backbone_edge (GetAtomPosition m) G3 u v \<and>
                    node_coords G3 u = Inr (GetAtomPosition m u) \<and>
                    node_coords G3 v = Inr (GetAtomPosition m v)) \<and>
           (\<forall>x y. adj G3 (x, y) \<noteq> adj G2 (x, y) \<longrightarrow>
                  (\<exists>r. map_of (residue_to_ca_atom m s) r = Some x \<and>
                        map_of (residue_to_ca_atom m s) (r + 1) = Some y \<or>
                        map_of (residue_to_ca_atom m s) r = Some y \<and>
                        map_of (residue_to_ca_atom m s) (r + 1) = Some x))"
proof -
  let ?ca = "residue_to_ca_atom m s"
  from backbone_ok[OF assms, of s] obtain G2 G3 where
    a: "assemble m s = Inr (G2, ?ca)" and b: "backbone m s = Inr (G3, ?ca)" and
    l: "link_backbone ?ca ?ca G2 = Inr G3" and n: "nodes G3 = nodes G2" and
    c: "ca_ok (serial_atom_dict s) (atoms m) ?ca" and
    loc: "ca_located (GetAtomPosition m) ?ca G2" and s3: "sym_adj G3"
    by blast
  have edges: "u \<noteq> v \<and> adj G3 (u, v) = adj G3 (v, u) \<and>
               backbone_edge (GetAtomPosition m) G3 u v \<and>
               node_coords G3 u = Inr (GetAtomPosition m u) \<and>
               node_coords G3 v = Inr (GetAtomPosition m v)"
    if u: "map_of ?ca r = Some u" and v: "map_of ?ca (r + 1) = Some v" for r u v
  proof -
    have mu: "(r, u) \<in> set ?ca" using u by (rule map_of_SomeD)
    have mv: "(r + 1, v) \<in> set ?ca" using v by (rule map_of_SomeD)
    have "u \<noteq> v"
    proof
      assume "u = v"
      with u v have "r = r + 1" using ca_ok_inj[OF c] by blast
      then show False by simp
    qed
    moreover have "adj G3 (u, v) = adj G3 (v, u)" using s3 unfolding sym_adj_def by blast
    moreover have "backbone_edge (GetAtomPosition m) G3 u v"
      using link_backbone_links[OF l loc subset_refl mu v] by blast
    moreover have "node_coords G3 u = Inr (GetAtomPosition m u)"
      using ca_locatedD[OF loc mu] node_coords_nodes[OF n] by simp
    moreover have "node_coords G3 v = Inr (GetAtomPosition m v)"
      using ca_locatedD[OF loc mv] node_coords_nodes[OF n] by simp
    ultimately show ?thesis by blast
  qed
  have only: "\<exists>r. map_of ?ca r = Some x \<and> map_of ?ca (r + 1) = Some y \<or>
                   map_of ?ca r = Some y \<and> map_of ?ca (r + 1) = Some x"
    if "adj G3 (x, y) \<noteq> adj G2 (x, y)" for x y
  proof -
    from link_backbone_only[OF l that] obtain r u v where
      m: "(r, u) \<in> set ?ca" and v: "map_of ?ca (r + 1) = Some v" and
      xy: "(x, y) = (u, v) \<or> (x, y) = (v, u)"
      by blast
    have "distinct (map fst ?ca)" using c unfolding ca_ok_def by blast
    then have u: "map_of ?ca r = Some u" using m by (simp add: map_of_eq_Some_iff)
    from xy u v show ?thesis by blast
  qed
  from a b edges only show ?thesis by blast
qed

theorem backbone_edge_correct_witness:
  "wf_mol ex_mol \<and>
   (\<exists>G3. backbone ex_mol ex_structure = Inr (G3, [(1, 0), (2, 1)]) \<and>
          adj G3 (0, 1) = adj G3 (1, 0) \<and>
          edge_attr G3 0 1 ''bond_idx'' = Some (PInt 0) \<and>
          edge_attr G3 0 1 ''bond_order'' = Some (PInt 0) \<and>
          edge_attr G3 0 1 ''bond_length'' = Some (PFloat (euclid (0, 0, 0) (3, 4, 0))))"
proof -
  from backbone_edge_correct[OF ex_wf, of ex_structure] obtain G2 G3 where
    b: "backbone ex_mol ex_structure = Inr (G3, residue_to_ca_atom ex_mol ex_structure)" and
    e: "\<And>r u v. map_of (residue_to_ca_atom ex_mol ex_structure) r = Some u \<Longrightarrow>
           map_of (residue_to_ca_atom ex_mol ex_structure) (r + 1) = Some v \<Longrightarrow>
           adj G3 (u, v) = adj G3 (v, u) \<and> backbone_edge (GetAtomPosition ex_mol) G3 u v"
    by blast
  have "adj G3 (0, 1) = adj G3 (1, 0) \<and> backbone_edge (GetAtomPosition ex_mol) G3 0 1"
    by (rule e[of 1]) (simp_all add: ex_ca)
  moreover have "GetAtomPosition ex_mol 0 = (0, 0, 0)" "GetAtomPosition ex_mol 1 = (3, 4, 0)"
    by (simp_all add: GetAtomPosition_def ex_mol_def)
  ultimately show ?thesis
    using b ex_wf by (simp add: ex_ca backbone_edge_def)
qed

text \<open>
  C3, as amended. When every residue of the structure has a child named CA, the
  confidence stage completes, and afterwards every node \<open>i\<close> carries
  \<^verbatim>\<open>plddt = plddt_dict.get(residue_number)\<close> for its own residue number, so atoms that
  share a residue number carry the same value; the dictionary sends a residue number to the
  B-factor of the CA atom of the last residue with that number, and the value is
  \<^verbatim>\<open>None\<close> exactly when the structure has no residue with the node's residue number.
\<close>

theorem plddt_broadcast:
  assumes "wf_mol m"
    and "\<forall>res \<in> set (all_residues s). find (\<lambda>a. bp_id a = ''CA'') (child_atoms res) \<noteq> None"
  shows "\<exists>G3 G4 pd. backbone m s = Inr (G3, residue_to_ca_atom m s) \<and>
           plddt_dict s = Inr pd \<and> add_plddt s (atoms m) G3 = Inr G4 \<and>
           (\<forall>i < length (atoms m). \<exists>d.
              map_of (nodes G4) i = Some d \<and>
              d ''residue_number'' = Some (PInt (residue_number (atoms m ! i))) \<and>
              d ''plddt'' = Some (plddt_val (pd (residue_number (atoms m ! i))))) \<and>
           (\<forall>r. pd r =
              (case find (\<lambda>res. resseq res = r) (rev (all_residues s)) of
                 None \<Rightarrow> None
               | Some res \<Rightarrow>
                   map_option bp_bfactor (find (\<lambda>a. bp_id a = ''CA'') (child_atoms res)))) \<and>
           (\<forall>r. pd r = None \<longleftrightarrow> r \<notin> resseq ` set (all_residues s))"
proof -
  from plddt_ok[OF assms] obtain G3 G4 pd where
    b: "backbone m s = Inr (G3, residue_to_ca_atom m s)" and
    pd: "plddt_dict s = Inr pd" and ap: "add_plddt s (atoms m) G3 = Inr G4" and
    m4: "\<forall>i < length (atoms m).
              map_of (nodes G4) i =
                Some ((atom_attrs (serial_atom_dict s) (atoms m ! i))
                        (''plddt'' \<mapsto> plddt_val (pd (residue_number (atoms m ! i)))))"
    by blast
  have nodes: "\<exists>d. map_of (nodes G4) i = Some d \<and>
              d ''residue_number'' = Some (PInt (residue_number (atoms m ! i))) \<and>
              d ''plddt'' = Some (plddt_val (pd (residue_number (atoms m ! i))))"
    if "i < length (atoms m)" for i
    using m4 that by (simp add: atom_attrs_residue_number)
  have look: "pd r =
              (case find (\<lambda>res. resseq res = r) (rev (all_residues s)) of
                 None \<Rightarrow> None
               | Some res \<Rightarrow>
                   map_option bp_bfactor (find (\<lambda>a. bp_id a = ''CA'') (child_atoms res)))" for r
    using build_plddt_dict_lookup[OF pd[unfolded plddt_dict_def], of r] by simp
  have none: "pd r = None \<longleftrightarrow> r \<notin> resseq ` set (all_residues s)" for r
  proof (cases "find (\<lambda>res. resseq res = r) (rev (all_residues s))")
    case None
    then have "r \<notin> resseq ` set (all_residues s)" by (auto simp: find_None_iff)
    with None look[of r] show ?thesis by simp
  next
    case (Some res)
    then have res: "res \<in> set (all_residues s)" "resseq res = r"
      using find_SomeD[of "\<lambda>res. resseq res = r" "rev (all_residues s)" res] by simp_all
    with assms(2) have "find (\<lambda>a. bp_id a = ''CA'') (child_atoms res) \<noteq> None" by blast
    with Some look[of r] res show ?thesis by auto
  qed
  from b pd ap nodes look none show ?thesis by blast
qed

theorem plddt_broadcast_witness:
  "wf_mol ex_mol \<and>
   list_all (\<lambda>res. find (\<lambda>a. bp_id a = ''CA'') (child_atoms res) \<noteq> None)
     (all_residues ex_structure) \<and>
   (\<exists>G3 G4. backbone ex_mol ex_structure = Inr (G3, residue_to_ca_atom ex_mol ex_structure) \<and>
      add_plddt ex_structure (atoms ex_mol) G3 = Inr G4 \<and>
      (\<exists>d. map_of (nodes G4) 0 = Some d \<and> d ''plddt'' = Some (PFloat 90)) \<and>
      (\<exists>d. map_of (nodes G4) 1 = Some d \<and> d ''plddt'' = Some (PFloat 70)))"
proof -
  from plddt_broadcast[OF ex_wf ex_all_ca] obtain G3 G4 pd where
    b: "backbone ex_mol ex_structure = Inr (G3, residue_to_ca_atom ex_mol ex_structure)" and
    ap: "add_plddt ex_structure (atoms ex_mol) G3 = Inr G4" and
    n: "\<forall>i < length (atoms ex_mol). \<exists>d.
              map_of (nodes G4) i = Some d \<and>
              d ''residue_number'' = Some (PInt (residue_number (atoms ex_mol ! i))) \<and>
              d ''plddt'' = Some (plddt_val (pd (residue_number (atoms ex_mol ! i))))" and
    l: "\<forall>r. pd r =
              (case find (\<lambda>res. resseq res = r) (rev (all_residues ex_structure)) of
                 None \<Rightarrow> None
               | Some res \<Rightarrow>
                   map_option bp_bfactor (find (\<lambda>a. bp_id a = ''CA'') (child_atoms res)))"
    by blast
  have "pd 1 = Some 90" "pd 2 = Some 70"
    using l by (simp_all add: all_residues_def ex_structure_def)
  moreover have "length (atoms ex_mol) = 2" "residue_number (atoms ex_mol ! 0) = 1"
    "residue_number (atoms ex_mol ! 1) = 2"
    by (simp_all add: ex_mol_def)
  ultimately have
    "\<exists>d. map_of (nodes G4) 0 = Some d \<and> d ''plddt'' = Some (PFloat 90)"
    "\<exists>d. map_of (nodes G4) 1 = Some d \<and> d ''plddt'' = Some (PFloat 70)"
    using n[rule_format, of 0] n[rule_format, of 1] by (auto simp: plddt_val_def)
  with b ap ex_wf ex_all_ca_list show ?thesis by blast
qed

text \<open>
  C3 as stated fails where it lets a residue without a CA atom through: on the two-residue
  protein whose second residue has only its N atom, line 99 raises KeyError and the job
  ends with it.
\<close>

theorem plddt_missing_ca_counterexample:
  "build_graph ex_float_str ex_files_no_ca ''P1'' False = Raised KeyError"
proof -
  from backbone_ok[OF ex_wf, of ex_structure_no_ca] obtain G3 where
    "backbone ex_mol ex_structure_no_ca = Inr (G3, residue_to_ca_atom ex_mol ex_structure_no_ca)"
    by blast
  then show ?thesis
    by (simp add: build_graph_def ex_files_no_ca_def ex_files_def add_plddt_def ex_no_ca_plddt)
qed

text \<open>
  C5, as amended. When the pairwise-error integrator runs on an \<open>M\<close> by \<open>M\<close> matrix,
  then for every pair \<open>(i, j)\<close> with \<open>i, j < M\<close> and \<open>i \<noteq> j\<close> such that the residue
  numbers \<open>i + 1\<close> and \<open>j + 1\<close> are keys of \<^verbatim>\<open>residue_to_ca_atom\<close>, the graph has an
  edge between the two CA atoms, which are different atoms, and its \<^verbatim>\<open>pae\<close> is the
  matrix entry at row \<open>max i j\<close> and column \<open>min i j\<close>: the graph is undirected, both
  orders are visited and the later write stays. No edge from a node to itself carries
  \<^verbatim>\<open>pae\<close>. The stage completes on such a matrix.
\<close>

theorem pae_edges:
  assumes "wf_mol m"
    and "\<forall>res \<in> set (all_residues s). find (\<lambda>a. bp_id a = ''CA'') (child_atoms res) \<noteq> None"
    and "get_pae_matrix pae_data = Inr mat" and "square_matrix mat M"
  shows "\<exists>G5. graph_after_pae m s (Inr pae_data) = Inr G5 \<and>
           (\<forall>i j u v. i < M \<longrightarrow> j < M \<longrightarrow> i \<noteq> j \<longrightarrow>
              map_of (residue_to_ca_atom m s) (int i + 1) = Some u \<longrightarrow>
              map_of (residue_to_ca_atom m s) (int j + 1) = Some v \<longrightarrow>
              u \<noteq> v \<and> adj G5 (u, v) \<noteq> None \<and>
              (\<exists>val. pae_entry mat (max i j) (min i j) = Inr val \<and>
                      edge_attr G5 u v ''pae'' = Some val)) \<and>
           (\<forall>x. edge_attr G5 x x ''pae'' = None)"
proof -
  let ?ca = "residue_to_ca_atom m s"
  from assms obtain G2 G3 G4 G5 where
    g: "graph_after_pae m s (Inr pae_data) = Inr G5" and
    r: "pae_rows ?ca mat [0..<M] G4 = Inr G5" and
    c: "ca_ok (serial_atom_dict s) (atoms m) ?ca" and np: "no_pae G4"
    by (rule pae_stage)
  have pair: "u \<noteq> v \<and> adj G5 (u, v) \<noteq> None \<and>
              (\<exists>val. pae_entry mat (max i j) (min i j) = Inr val \<and>
                      edge_attr G5 u v ''pae'' = Some val)"
    if ij: "i < M" "j < M" "i \<noteq> j"
      and u: "map_of ?ca (int i + 1) = Some u" and v: "map_of ?ca (int j + 1) = Some v"
    for i j u v
  proof -
    have ne: "u \<noteq> v"
    proof
      assume "u = v"
      with u v have "int i + 1 = int j + 1" using ca_ok_inj[OF c] by blast
      with ij(3) show False by simp
    qed
    have val: "\<exists>val. pae_entry mat (max i j) (min i j) = Inr val \<and>
                      edge_attr G5 u v ''pae'' = Some val"
    proof (cases "i < j")
      case True
      from pae_last_write[OF r c assms(4) True ij(2) u v] True show ?thesis
        by (auto simp: max_def min_def)
    next
      case False
      then have lt: "j < i" using ij(3) by simp
      from pae_last_write[OF r c assms(4) lt ij(1) v u] lt show ?thesis
        by (auto simp: max_def min_def)
    qed
    then have "adj G5 (u, v) \<noteq> None" by (auto simp: edge_attr_def split: option.splits)
    with ne val show ?thesis by blast
  qed
  have loop: "edge_attr G5 x x ''pae'' = None" for x
  proof -
    have "adj G5 (x, x) = adj G4 (x, x)" using r c by (rule pae_rows_loop)
    then have "edge_attr G5 x x ''pae'' = edge_attr G4 x x ''pae''" by (rule edge_attr_cong)
    with np show ?thesis by (simp add: no_pae_def)
  qed
  from g pair loop show ?thesis by blast
qed

theorem pae_edges_witness:
  "wf_mol ex_mol \<and>
   list_all (\<lambda>res. find (\<lambda>a. bp_id a = ''CA'') (child_atoms res) \<noteq> None)
     (all_residues ex_structure) \<and>
   get_pae_matrix ex_pae = Inr ex_matrix \<and> square_matrix ex_matrix 2 \<and>
   (\<exists>G5. graph_after_pae ex_mol ex_structure (Inr ex_pae) = Inr G5 \<and>
          adj G5 (0, 1) \<noteq> None \<and>
          edge_attr G5 0 1 ''pae'' = Some (PFloat 2.5) \<and>
          edge_attr G5 1 0 ''pae'' = Some (PFloat 2.5) \<and>
          edge_attr G5 0 0 ''pae'' = None)"
proof -
  let ?ca = "residue_to_ca_atom ex_mol ex_structure"
  from pae_edges[OF ex_wf ex_all_ca ex_get_pae_matrix ex_square] obtain G5 where
    g: "graph_after_pae ex_mol ex_structure (Inr ex_pae) = Inr G5" and
    e: "\<And>i j u v. i < 2 \<Longrightarrow> j < 2 \<Longrightarrow> i \<noteq> j \<Longrightarrow> map_of ?ca (int i + 1) = Some u \<Longrightarrow>
          map_of ?ca (int j + 1) = Some v \<Longrightarrow>
          adj G5 (u, v) \<noteq> None \<and>
          (\<exists>val. pae_entry ex_matrix (max i j) (min i j) = Inr val \<and>
                  edge_attr G5 u v ''pae'' = Some val)" and
    l: "\<And>x. edge_attr G5 x x ''pae'' = None"
    by blast
  have 1: "adj G5 (0, 1) \<noteq> None \<and> edge_attr G5 0 1 ''pae'' = Some (PFloat 2.5)"
    using e[of 0 1 0 1] by (simp add: ex_ca ex_entries_Suc)
  have 2: "edge_attr G5 1 0 ''pae'' = Some (PFloat 2.5)"
    using e[of 1 0 1 0] by (simp add: ex_ca ex_entries_Suc)
  from g 1 2 l ex_wf ex_all_ca_list ex_get_pae_matrix ex_square show ?thesis by blast
qed

text \<open>
  C5 as stated gives the edge of \<open>(i, j)\<close> the entry \<open>matrix[i][j]\<close>. On the two-residue
  protein, whose residues 1 and 2 have the CA atoms 0 and 1, with the matrix
  \<open>[[0, 1.5], [2.5, 0]]\<close> the pair \<open>(0, 1)\<close> has \<open>matrix[0][1] = 1.5\<close> and the edge
  between the atoms 0 and 1 ends with \<open>pae = 2.5\<close>.
\<close>

theorem pae_edges_counterexample:
  "residue_to_ca_atom ex_mol ex_structure = [(1, 0), (2, 1)] \<and>
   get_pae_matrix ex_pae = Inr ex_matrix \<and>
   pae_entry ex_matrix 0 1 = Inr (PFloat 1.5) \<and>
   pae_of_edge ex_mol ex_structure (Inr ex_pae) 0 1 = Some (PFloat 2.5)"
proof -
  from ex_pae_edge obtain G5 where
    "graph_after_pae ex_mol ex_structure (Inr ex_pae) = Inr G5"
    "edge_attr G5 0 1 ''pae'' = Some (PFloat 2.5)"
    by blast
  then have "pae_of_edge ex_mol ex_structure (Inr ex_pae) 0 1 = Some (PFloat 2.5)"
    by (simp add: pae_of_edge_def edge_attr_def)
  with ex_ca ex_get_pae_matrix ex_entries(1) show ?thesis by blast
qed

text \<open>
  C10. The graph is a simple undirected graph: after the bonds, after the backbone, after
  the confidence stage and after the PAE stage every pair of nodes has one attribute
  dictionary, the same in both directions. The PAE stage removes no edge and leaves every
  attribute other than \<^verbatim>\<open>pae\<close> of every edge as it was, so on a pair that a bond or the
  backbone already joins the error is merged onto that edge; and for every pair
  \<open>a < b < M\<close> whose residue numbers \<open>a + 1\<close> and \<open>b + 1\<close> are keys of
  \<^verbatim>\<open>residue_to_ca_atom\<close>, the edge ends with the entry \<open>matrix[b][a]\<close>, the later write.
\<close>

theorem simple_graph_merge:
  assumes "wf_mol m"
    and "\<forall>res \<in> set (all_residues s). find (\<lambda>a. bp_id a = ''CA'') (child_atoms res) \<noteq> None"
    and "get_pae_matrix pae_data = Inr mat" and "square_matrix mat M"
  shows "\<exists>G2 G3 G4 G5.
           assemble m s = Inr (G2, residue_to_ca_atom m s) \<and>
           backbone m s = Inr (G3, residue_to_ca_atom m s) \<and>
           add_plddt s (atoms m) G3 = Inr G4 \<and>
           add_pae (Inr pae_data) (residue_to_ca_atom m s) G4 = Inr G5 \<and>
           sym_adj G2 \<and> sym_adj G3 \<and> sym_adj G4 \<and> sym_adj G5 \<and> adj G4 = adj G3 \<and>
           (\<forall>x y. adj G4 (x, y) \<noteq> None \<longrightarrow>
              adj G5 (x, y) \<noteq> None \<and>
              (\<forall>k. k \<noteq> ''pae'' \<longrightarrow> edge_attr G5 x y k = edge_attr G4 x y k)) \<and>
           (\<forall>a b u v. a < b \<longrightarrow> b < M \<longrightarrow>
              map_of (residue_to_ca_atom m s) (int a + 1) = Some u \<longrightarrow>
              map_of (residue_to_ca_atom m s) (int b + 1) = Some v \<longrightarrow>
              (\<exists>val. pae_entry mat b a = Inr val \<and>
                      edge_attr G5 u v ''pae'' = Some val \<and>
                      edge_attr G5 v u ''pae'' = Some val))"
proof -
  let ?ca = "residue_to_ca_atom m s"
  from assms obtain G2 G3 G4 G5 where
    a: "assemble m s = Inr (G2, ?ca)" and b: "backbone m s = Inr (G3, ?ca)" and
    ap: "add_plddt s (atoms m) G3 = Inr G4" and
    p: "add_pae (Inr pae_data) ?ca G4 = Inr G5" and
    r: "pae_rows ?ca mat [0..<M] G4 = Inr G5" and a4: "adj G4 = adj G3" and
    c: "ca_ok (serial_atom_dict s) (atoms m) ?ca" and
    sy: "sym_adj G2" "sym_adj G3" "sym_adj G4" "sym_adj G5"
    by (rule pae_stage)
  have keep: "adj G5 (x, y) \<noteq> None \<and>
              (\<forall>k. k \<noteq> ''pae'' \<longrightarrow> edge_attr G5 x y k = edge_attr G4 x y k)"
    if "adj G4 (x, y) \<noteq> None" for x y
    using pae_rows_keeps_edges[OF r that] pae_rows_keeps[OF r sy(3)] by blast
  have last: "\<exists>val. pae_entry mat b a = Inr val \<and>
                      edge_attr G5 u v ''pae'' = Some val \<and>
                      edge_attr G5 v u ''pae'' = Some val"
    if "a < b" "b < M" "map_of ?ca (int a + 1) = Some u" "map_of ?ca (int b + 1) = Some v"
    for a b u v
    using r c assms(4) that by (rule pae_last_write)
  from a b ap p sy a4 keep last show ?thesis by blast
qed

theorem simple_graph_merge_witness:
  "wf_mol ex_mol \<and>
   list_all (\<lambda>res. find (\<lambda>a. bp_id a = ''CA'') (child_atoms res) \<noteq> None)
     (all_residues ex_structure) \<and>
   get_pae_matrix ex_pae = Inr ex_matrix \<and> square_matrix ex_matrix 2 \<and>
   (\<exists>G3 G4 G5.
      backbone ex_mol ex_structure = Inr (G3, residue_to_ca_atom ex_mol ex_structure) \<and>
      add_plddt ex_structure (atoms ex_mol) G3 = Inr G4 \<and>
      add_pae (Inr ex_pae) (residue_to_ca_atom ex_mol ex_structure) G4 = Inr G5 \<and>
      adj G5 (0, 1) = adj G5 (1, 0) \<and>
      edge_attr G5 0 1 ''bond_idx'' = Some (PInt 0) \<and>
      edge_attr G5 0 1 ''pae'' = Some (PFloat 2.5))"
proof -
  let ?ca = "residue_to_ca_atom ex_mol ex_structure"
  from simple_graph_merge[OF ex_wf ex_all_ca ex_get_pae_matrix ex_square]
  obtain G2 G3 G4 G5 where
    b: "backbone ex_mol ex_structure = Inr (G3, ?ca)" and
    ap: "add_plddt ex_structure (atoms ex_mol) G3 = Inr G4" and
    p: "add_pae (Inr ex_pae) ?ca G4 = Inr G5" and
    s5: "sym_adj G5" and a4: "adj G4 = adj G3" and
    keep: "\<forall>x y. adj G4 (x, y) \<noteq> None \<longrightarrow>
              adj G5 (x, y) \<noteq> None \<and>
              (\<forall>k. k \<noteq> ''pae'' \<longrightarrow> edge_attr G5 x y k = edge_attr G4 x y k)" and
    last: "\<forall>a b u v. a < b \<longrightarrow> b < 2 \<longrightarrow>
              map_of ?ca (int a + 1) = Some u \<longrightarrow>
              map_of ?ca (int b + 1) = Some v \<longrightarrow>
              (\<exists>val. pae_entry ex_matrix b a = Inr val \<and>
                      edge_attr G5 u v ''pae'' = Some val \<and>
                      edge_attr G5 v u ''pae'' = Some val)"
    by (elim exE conjE) (rule that)
  have e3: "edge_attr G3 0 1 ''bond_idx'' = Some (PInt 0)" using b by (rule ex_backbone_edge)
  then have e4: "edge_attr G4 0 1 ''bond_idx'' = Some (PInt 0)"
    using a4 by (simp add: edge_attr_def)
  then have "adj G4 (0, 1) \<noteq> None" by (auto simp: edge_attr_def split: option.splits)
  with keep have "edge_attr G5 0 1 ''bond_idx'' = edge_attr G4 0 1 ''bond_idx''" by simp
  with e4 have 1: "edge_attr G5 0 1 ''bond_idx'' = Some (PInt 0)" by simp
  have "\<exists>val. pae_entry ex_matrix 1 0 = Inr val \<and>
                      edge_attr G5 0 1 ''pae'' = Some val \<and>
                      edge_attr G5 1 0 ''pae'' = Some val"
    by (rule last[rule_format, of 0 1]) (simp_all add: ex_ca)
  then have 2: "edge_attr G5 0 1 ''pae'' = Some (PFloat 2.5)"
    by (auto simp: ex_entries_Suc)
  have 3: "adj G5 (0, 1) = adj G5 (1, 0)" using s5 by (simp add: sym_adj_def)
  from b ap p 1 2 3 ex_wf ex_all_ca_list ex_get_pae_matrix ex_square show ?thesis by blast
qed

text \<open>
  C4, as amended. After the secondary-structure stage, every node whose residue number is
  a key of \<^verbatim>\<open>dssp_data\<close> has the twelve attributes of lines 165-176 (the tuple without
  its index and its residue letter), with the values of the entry for that key, and
  nothing else about it has changed; a node whose residue number is not a key is as it was
  and has none of the twelve. The stage completes whenever the analyzer returns, on the
  nodes the earlier stages leave, whether or not the PAE stage has run.
\<close>

theorem dssp_enrichment:
  assumes "wf_mol m"
    and "\<forall>res \<in> set (all_residues s). find (\<lambda>a. bp_id a = ''CA'') (child_atoms res) \<noteq> None"
  shows "\<exists>G3 G4. backbone m s = Inr (G3, residue_to_ca_atom m s) \<and>
           add_plddt s (atoms m) G3 = Inr G4 \<and>
           (\<forall>G5. nodes G5 = nodes G4 \<longrightarrow>
              (\<exists>G6. add_dssp (Inr dssp) G5 = Inr G6 \<and> adj G6 = adj G5 \<and>
                 (\<forall>i < length (atoms m). \<exists>d d'.
                    map_of (nodes G5) i = Some d \<and> map_of (nodes G6) i = Some d' \<and>
                    d ''residue_number'' = Some (PInt (residue_number (atoms m ! i))) \<and>
                    (\<forall>k \<in> set dssp_fields. d k = None) \<and>
                    (case run_dssp dssp (residue_number (atoms m ! i)) of
                       None \<Rightarrow> d' = d
                     | Some rec \<Rightarrow>
                         d' = d ++ dssp_attrs rec \<and> dom (dssp_attrs rec) = set dssp_fields)))) \<and>
           length dssp_fields = 12 \<and> distinct dssp_fields"
proof (rule dssp_stage[OF assms])
  fix G3 G4 pd
  assume
    b: "backbone m s = Inr (G3, residue_to_ca_atom m s)" and
    ap: "add_plddt s (atoms m) G3 = Inr G4" and
    m4: "\<And>i. i < length (atoms m) \<Longrightarrow>
       map_of (nodes G4) i =
         Some ((atom_attrs (serial_atom_dict s) (atoms m ! i))
                 (''plddt'' \<mapsto> plddt_val (pd (residue_number (atoms m ! i)))))" and
    en: "\<And>G5 dssp. nodes G5 = nodes G4 \<Longrightarrow>
       \<exists>G6. add_dssp (Inr dssp) G5 = Inr G6 \<and> adj G6 = adj G5 \<and>
         map fst (nodes G6) = [0..<length (atoms m)] \<and>
         (\<forall>i < length (atoms m). map_of (nodes G6) i =
            Some (case run_dssp dssp (residue_number (atoms m ! i)) of
                    None \<Rightarrow> (atom_attrs (serial_atom_dict s) (atoms m ! i))
                               (''plddt'' \<mapsto> plddt_val (pd (residue_number (atoms m ! i))))
                  | Some rec \<Rightarrow>
                      (atom_attrs (serial_atom_dict s) (atoms m ! i))
                        (''plddt'' \<mapsto> plddt_val (pd (residue_number (atoms m ! i))))
                      ++ dssp_attrs rec))"
  have stage: "\<exists>G6. add_dssp (Inr dssp) G5 = Inr G6 \<and> adj G6 = adj G5 \<and>
                 (\<forall>i < length (atoms m). \<exists>d d'.
                    map_of (nodes G5) i = Some d \<and> map_of (nodes G6) i = Some d' \<and>
                    d ''residue_number'' = Some (PInt (residue_number (atoms m ! i))) \<and>
                    (\<forall>k \<in> set dssp_fields. d k = None) \<and>
                    (case run_dssp dssp (residue_number (atoms m ! i)) of
                       None \<Rightarrow> d' = d
                     | Some rec \<Rightarrow>
                         d' = d ++ dssp_attrs rec \<and> dom (dssp_attrs rec) = set dssp_fields))"
    if n: "nodes G5 = nodes G4" for G5 :: graph
  proof -
    from en[OF n, of dssp] obtain G6 where
      r: "add_dssp (Inr dssp) G5 = Inr G6" and a: "adj G6 = adj G5" and
      d6: "\<forall>i < length (atoms m). map_of (nodes G6) i =
            Some (case run_dssp dssp (residue_number (atoms m ! i)) of
                    None \<Rightarrow> (atom_attrs (serial_atom_dict s) (atoms m ! i))
                               (''plddt'' \<mapsto> plddt_val (pd (residue_number (atoms m ! i))))
                  | Some rec \<Rightarrow>
                      (atom_attrs (serial_atom_dict s) (atoms m ! i))
                        (''plddt'' \<mapsto> plddt_val (pd (residue_number (atoms m ! i))))
                      ++ dssp_attrs rec)"
      by blast
    have "\<exists>d d'. map_of (nodes G5) i = Some d \<and> map_of (nodes G6) i = Some d' \<and>
                    d ''residue_number'' = Some (PInt (residue_number (atoms m ! i))) \<and>
                    (\<forall>k \<in> set dssp_fields. d k = None) \<and>
                    (case run_dssp dssp (residue_number (atoms m ! i)) of
                       None \<Rightarrow> d' = d
                     | Some rec \<Rightarrow>
                         d' = d ++ dssp_attrs rec \<and> dom (dssp_attrs rec) = set dssp_fields)"
      if i: "i < length (atoms m)" for i
    proof -
      let ?d = "(atom_attrs (serial_atom_dict s) (atoms m ! i))
                  (''plddt'' \<mapsto> plddt_val (pd (residue_number (atoms m ! i))))"
      have 1: "map_of (nodes G5) i = Some ?d" using m4[OF i] n by simp
      have 2: "?d ''residue_number'' = Some (PInt (residue_number (atoms m ! i)))"
        by (simp add: atom_attrs_residue_number)
      have 3: "\<forall>k \<in> set dssp_fields. ?d k = None"
        using atom_attrs_no_dssp by blast
      show ?thesis
      proof (cases "run_dssp dssp (residue_number (atoms m ! i))")
        case None
        with d6 i have "map_of (nodes G6) i = Some ?d" by simp
        with 1 2 3 None show ?thesis by simp
      next
        case (Some rec)
        with d6 i have "map_of (nodes G6) i = Some (?d ++ dssp_attrs rec)" by simp
        with 1 2 3 Some show ?thesis by (simp add: dssp_attrs_dom)
      qed
    qed
    with r a show ?thesis by blast
  qed
  from b ap stage dssp_fields_count show ?thesis by blast
qed

theorem dssp_enrichment_witness:
  "wf_mol ex_mol \<and>
   list_all (\<lambda>res. find (\<lambda>a. bp_id a = ''CA'') (child_atoms res) \<noteq> None)
     (all_residues ex_structure) \<and>
   (\<exists>G3 G4 G6 d0 d1.
      backbone ex_mol ex_structure = Inr (G3, residue_to_ca_atom ex_mol ex_structure) \<and>
      add_plddt ex_structure (atoms ex_mol) G3 = Inr G4 \<and>
      add_dssp (Inr [ex_dssp_res 1]) G4 = Inr G6 \<and>
      map_of (nodes G6) 0 = Some d0 \<and> d0 ''secondary_structure'' = Some (PStr ''H'') \<and>
      d0 ''O_NH_2_energy'' = Some (PFloat 0) \<and>
      map_of (nodes G6) 1 = Some d1 \<and> d1 ''secondary_structure'' = None)"
proof -
  from dssp_enrichment[OF ex_wf ex_all_ca, of "[ex_dssp_res 1]"] obtain G3 G4 where
    b: "backbone ex_mol ex_structure = Inr (G3, residue_to_ca_atom ex_mol ex_structure)" and
    ap: "add_plddt ex_structure (atoms ex_mol) G3 = Inr G4" and
    st: "\<forall>G5. nodes G5 = nodes G4 \<longrightarrow>
              (\<exists>G6. add_dssp (Inr [ex_dssp_res 1]) G5 = Inr G6 \<and> adj G6 = adj G5 \<and>
                 (\<forall>i < length (atoms ex_mol). \<exists>d d'.
                    map_of (nodes G5) i = Some d \<and> map_of (nodes G6) i = Some d' \<and>
                    d ''residue_number'' = Some (PInt (residue_number (atoms ex_mol ! i))) \<and>
                    (\<forall>k \<in> set dssp_fields. d k = None) \<and>
                    (case run_dssp [ex_dssp_res 1] (residue_number (atoms ex_mol ! i)) of
                       None \<Rightarrow> d' = d
                     | Some rec \<Rightarrow>
                         d' = d ++ dssp_attrs rec \<and> dom (dssp_attrs rec) = set dssp_fields)))"
    by (elim exE conjE) (rule that)
  from st[rule_format, OF refl] obtain G6 where
    r: "add_dssp (Inr [ex_dssp_res 1]) G4 = Inr G6" and
    n: "\<forall>i < length (atoms ex_mol). \<exists>d d'.
                    map_of (nodes G4) i = Some d \<and> map_of (nodes G6) i = Some d' \<and>
                    d ''residue_number'' = Some (PInt (residue_number (atoms ex_mol ! i))) \<and>
                    (\<forall>k \<in> set dssp_fields. d k = None) \<and>
                    (case run_dssp [ex_dssp_res 1] (residue_number (atoms ex_mol ! i)) of
                       None \<Rightarrow> d' = d
                     | Some rec \<Rightarrow>
                         d' = d ++ dssp_attrs rec \<and> dom (dssp_attrs rec) = set dssp_fields)"
    by blast
  from n[rule_format, of 0] obtain d d0 where
    "map_of (nodes G6) 0 = Some d0" "d0 = d ++ dssp_attrs (ex_dssp_res 1)"
    by (auto simp: ex_atoms ex_run_dssp)
  then have 0: "\<exists>d0. map_of (nodes G6) 0 = Some d0 \<and>
      d0 ''secondary_structure'' = Some (PStr ''H'') \<and> d0 ''O_NH_2_energy'' = Some (PFloat 0)"
    by (simp add: dssp_attrs_def ex_dssp_res_def map_add_def)
  from n[rule_format, of 1] obtain d1 where
    "map_of (nodes G6) 1 = Some d1" "\<forall>k \<in> set dssp_fields. d1 k = None"
    by (auto simp: ex_atoms ex_run_dssp)
  then have 1: "\<exists>d1. map_of (nodes G6) 1 = Some d1 \<and> d1 ''secondary_structure'' = None"
    by (simp add: dssp_fields_def)
  from b ap r 0 1 ex_wf ex_all_ca_list show ?thesis by blast
qed

text \<open>
  C4 as stated has eleven fields. On the two-residue protein with a DSSP entry for residue
  1, the attribute names that node 0 has after the stage and would not have without the
  entry are twelve.
\<close>

theorem dssp_enrichment_counterexample:
  "card (node_keys_after_dssp ex_mol ex_structure (Inr [ex_dssp_res 1]) 0
           - node_keys_after_dssp ex_mol ex_structure (Inr []) 0) = 12"
  unfolding ex_dssp_keys using dssp_fields_count by (simp add: distinct_card)

text \<open>
  C8. For a parsed molecule with \<open>N\<close> atoms, the assembly stage (nodes and bonds)
  completes and leaves a graph whose node keys are \<open>0, \<dots>, N - 1\<close>, each once, node \<open>i\<close>
  carrying the attributes of atom \<open>i\<close>; and the indices stay as they are for as long as
  the graph lives: the graph that is pickled has the same keys, and its node \<open>i\<close> still
  carries the atomic number and the residue number of atom \<open>i\<close>.
\<close>

theorem node_coverage:
  assumes "wf_mol m"
  shows "\<exists>G ca. assemble m s = Inr (G, ca) \<and>
           map fst (nodes G) = [0..<length (atoms m)] \<and> length (nodes G) = length (atoms m) \<and>
           (\<forall>i < length (atoms m).
              map_of (nodes G) i = Some (atom_attrs (serial_atom_dict s) (atoms m ! i))) \<and>
           (\<forall>fs files file_name include_pae G7.
              MolFromPDBFile files = Some m \<longrightarrow> get_structure files = Inr s \<longrightarrow>
              build_graph fs files file_name include_pae = Built G7 \<longrightarrow>
              map fst (nodes G7) = [0..<length (atoms m)] \<and>
              (\<forall>i < length (atoms m). \<exists>d.
                 map_of (nodes G7) i = Some d \<and>
                 d ''atomic_number'' = Some (PInt (atomic_num (atoms m ! i))) \<and>
                 d ''residue_number'' = Some (PInt (residue_number (atoms m ! i)))))"
proof -
  from assemble_ok[OF assms, of s] obtain G ca where
    a: "assemble m s = Inr (G, ca)" and
    k: "map fst (nodes G) = [0..<length (atoms m)]" and
    d: "\<forall>i < length (atoms m).
          map_of (nodes G) i = Some (atom_attrs (serial_atom_dict s) (atoms m ! i))"
    by blast
  have "length (map fst (nodes G)) = length (atoms m)" unfolding k by simp
  then have l: "length (nodes G) = length (atoms m)" by simp
  from a k l d built_nodes show ?thesis by blast
qed

theorem node_coverage_witness:
  "wf_mol ex_mol \<and> MolFromPDBFile ex_files = Some ex_mol \<and>
   get_structure ex_files = Inr ex_structure \<and>
   (\<exists>G ca. assemble ex_mol ex_structure = Inr (G, ca) \<and> map fst (nodes G) = [0, 1]) \<and>
   (\<exists>G7. build_graph ex_float_str ex_files ''P1'' True = Built G7 \<and>
          map fst (nodes G7) = [0, 1])"
proof -
  have f: "MolFromPDBFile ex_files = Some ex_mol" "get_structure ex_files = Inr ex_structure"
    by (simp_all add: ex_files_def)
  have upt: "[0..<length (atoms ex_mol)] = [0, 1]"
    by (simp add: ex_atoms upt_rec)
  from node_coverage[OF ex_wf, of ex_structure] obtain G ca where
    a: "assemble ex_mol ex_structure = Inr (G, ca)" and
    k: "map fst (nodes G) = [0..<length (atoms ex_mol)]" and
    life: "\<forall>fs files file_name include_pae G7.
              MolFromPDBFile files = Some ex_mol \<longrightarrow> get_structure files = Inr ex_structure \<longrightarrow>
              build_graph fs files file_name include_pae = Built G7 \<longrightarrow>
              map fst (nodes G7) = [0..<length (atoms ex_mol)] \<and>
              (\<forall>i < length (atoms ex_mol). \<exists>d.
                 map_of (nodes G7) i = Some d \<and>
                 d ''atomic_number'' = Some (PInt (atomic_num (atoms ex_mol ! i))) \<and>
                 d ''residue_number'' = Some (PInt (residue_number (atoms ex_mol ! i))))"
    by (elim exE conjE) (rule that)
  from ex_build obtain G7 where b: "build_graph ex_float_str ex_files ''P1'' True = Built G7"
    by blast
  from life[rule_format, OF f b] have k7: "map fst (nodes G7) = [0, 1]" unfolding upt by blast
  have 1: "\<exists>G ca. assemble ex_mol ex_structure = Inr (G, ca) \<and> map fst (nodes G) = [0, 1]"
    using a k unfolding upt by (intro exI conjI)
  have 2: "\<exists>G7. build_graph ex_float_str ex_files ''P1'' True = Built G7 \<and>
                 map fst (nodes G7) = [0, 1]"
    using b k7 by (intro exI conjI)
  from ex_wf f 1 2 show ?thesis by (intro conjI)
qed

text \<open>
  C9. The artifact is written only after every stage has completed: whenever the job
  changes the output directory, every stage from parsing to the coordinate strings has
  returned a graph, the job ends without exception, the artifact was not there before and
  the only change is the pickled final graph under the protein's name; a job that ends
  with an exception leaves the state as it was; if the analyzer fails the output
  directory is as it was, and a job that gets as far as the analyzer prints the failure
  and returns.
\<close>

theorem artifact_only_after_all_stages:
  "(DSSP (inputs w file_name) = Inl e \<longrightarrow>
      output_dir (snd (protein_molecule_graphs w file_name include_pae st)) = output_dir st) \<and>
   (fst (protein_molecule_graphs w file_name include_pae st) \<noteq> None \<longrightarrow>
      snd (protein_molecule_graphs w file_name include_pae st) = st) \<and>
   (output_dir (snd (protein_molecule_graphs w file_name include_pae st)) \<noteq> output_dir st \<longrightarrow>
      fst (protein_molecule_graphs w file_name include_pae st) = None \<and>
      output_dir st (output_file_name file_name) = None \<and>
      (\<exists>m s G3 ca G4 G5 G6 G7.
         MolFromPDBFile (inputs w file_name) = Some m \<and>
         get_structure (inputs w file_name) = Inr s \<and>
         backbone m s = Inr (G3, ca) \<and> add_plddt s (atoms m) G3 = Inr G4 \<and>
         (if include_pae then add_pae (json_load (inputs w file_name)) ca G4 else Inr G4)
           = Inr G5 \<and>
         add_dssp (DSSP (inputs w file_name)) G5 = Inr G6 \<and>
         stringify_coords (float_str w) G6 = Inr G7 \<and>
         snd (protein_molecule_graphs w file_name include_pae st)
           = st\<lparr>output_dir := (output_dir st)(output_file_name file_name \<mapsto> Pickle G7)\<rparr>)) \<and>
   (output_dir st (output_file_name file_name) = None \<longrightarrow>
    MolFromPDBFile (inputs w file_name) = Some m \<longrightarrow>
    get_structure (inputs w file_name) = Inr s \<longrightarrow>
    backbone m s = Inr (G3, ca) \<longrightarrow> add_plddt s (atoms m) G3 = Inr G4 \<longrightarrow>
    (if include_pae then add_pae (json_load (inputs w file_name)) ca G4 else Inr G4) = Inr G5 \<longrightarrow>
    DSSP (inputs w file_name) = Inl e \<longrightarrow>
      protein_molecule_graphs w file_name include_pae st
        = (None, say (DsspFailed file_name e) st))"
proof (intro conjI impI)
  assume d: "DSSP (inputs w file_name) = Inl e"
  show "output_dir (snd (protein_molecule_graphs w file_name include_pae st)) = output_dir st"
  proof (cases rule: job_cases[of st file_name w include_pae])
    case skipped
    then show ?thesis by simp
  next
    case (raised e)
    then show ?thesis by simp
  next
    case (aborted msg)
    then show ?thesis by simp
  next
    case (built G)
    with build_dssp_fails[OF d] show ?thesis by blast
  qed
next
  assume "fst (protein_molecule_graphs w file_name include_pae st) \<noteq> None"
  then show "snd (protein_molecule_graphs w file_name include_pae st) = st"
    by (cases rule: job_cases[of st file_name w include_pae]) simp_all
next
  assume ch: "output_dir (snd (protein_molecule_graphs w file_name include_pae st)) \<noteq> output_dir st"
  then show "fst (protein_molecule_graphs w file_name include_pae st) = None"
    by (cases rule: job_cases[of st file_name w include_pae]) simp_all
  from ch show "output_dir st (output_file_name file_name) = None"
    by (cases rule: job_cases[of st file_name w include_pae]) simp_all
  from ch show "\<exists>m s G3 ca G4 G5 G6 G7.
         MolFromPDBFile (inputs w file_name) = Some m \<and>
         get_structure (inputs w file_name) = Inr s \<and>
         backbone m s = Inr (G3, ca) \<and> add_plddt s (atoms m) G3 = Inr G4 \<and>
         (if include_pae then add_pae (json_load (inputs w file_name)) ca G4 else Inr G4)
           = Inr G5 \<and>
         add_dssp (DSSP (inputs w file_name)) G5 = Inr G6 \<and>
         stringify_coords (float_str w) G6 = Inr G7 \<and>
         snd (protein_molecule_graphs w file_name include_pae st)
           = st\<lparr>output_dir := (output_dir st)(output_file_name file_name \<mapsto> Pickle G7)\<rparr>"
  proof (cases rule: job_cases[of st file_name w include_pae])
    case skipped
    with ch show ?thesis by simp
  next
    case (raised e)
    with ch show ?thesis by simp
  next
    case (aborted msg)
    with ch show ?thesis by simp
  next
    case (built G)
    from built(2) show ?thesis
    proof (rule build_graph_BuiltE)
      fix m s G3 ca G4 G5 G6
      assume "MolFromPDBFile (inputs w file_name) = Some m"
        "get_structure (inputs w file_name) = Inr s"
        "backbone m s = Inr (G3, ca)" "add_plddt s (atoms m) G3 = Inr G4"
        "(if include_pae then add_pae (json_load (inputs w file_name)) ca G4 else Inr G4) = Inr G5"
        "add_dssp (DSSP (inputs w file_name)) G5 = Inr G6"
        "stringify_coords (float_str w) G6 = Inr G"
      with built(3) show ?thesis by (intro exI[of _ m] exI[of _ s] exI[of _ G3] exI[of _ ca]
          exI[of _ G4] exI[of _ G5] exI[of _ G6] exI[of _ G]) simp
    qed
  qed
next
  assume "output_dir st (output_file_name file_name) = None"
    "MolFromPDBFile (inputs w file_name) = Some m" "get_structure (inputs w file_name) = Inr s"
    "backbone m s = Inr (G3, ca)" "add_plddt s (atoms m) G3 = Inr G4"
    "(if include_pae then add_pae (json_load (inputs w file_name)) ca G4 else Inr G4) = Inr G5"
    "DSSP (inputs w file_name) = Inl e"
  then show "protein_molecule_graphs w file_name include_pae st
        = (None, say (DsspFailed file_name e) st)"
    using build_reaches_dssp[of "inputs w file_name" m s G3 ca G4 include_pae G5 e "float_str w" file_name]
    by (simp add: protein_molecule_graphs_def)
qed

theorem artifact_only_after_all_stages_witness:
  "DSSP (inputs (ex_world_with ex_files_no_dssp) ''P1'') = Inl LibraryError \<and>
   output_dir ex_state (output_file_name ''P1'') = None \<and>
   MolFromPDBFile (inputs (ex_world_with ex_files_no_dssp) ''P1'') = Some ex_mol \<and>
   get_structure (inputs (ex_world_with ex_files_no_dssp) ''P1'') = Inr ex_structure \<and>
   protein_molecule_graphs (ex_world_with ex_files_no_dssp) ''P1'' False ex_state
     = (None, say (DsspFailed ''P1'' LibraryError) ex_state) \<and>
   output_dir (snd (protein_molecule_graphs (ex_world_with ex_files_no_dssp) ''P1'' False ex_state))
     = output_dir ex_state"
proof -
  let ?w = "ex_world_with ex_files_no_dssp"
  from plddt_ok[OF ex_wf ex_all_ca] obtain G3 G4 where
    b: "backbone ex_mol ex_structure = Inr (G3, residue_to_ca_atom ex_mol ex_structure)" and
    ap: "add_plddt ex_structure (atoms ex_mol) G3 = Inr G4"
    by blast
  have d: "DSSP (inputs ?w ''P1'') = Inl LibraryError"
    and m: "MolFromPDBFile (inputs ?w ''P1'') = Some ex_mol"
    and s: "get_structure (inputs ?w ''P1'') = Inr ex_structure"
    by (simp_all add: ex_inputs ex_files_fields)
  have n: "output_dir ex_state (output_file_name ''P1'') = None" by (rule ex_state_empty)
  have p: "(if False then add_pae (json_load (inputs ?w ''P1''))
              (residue_to_ca_atom ex_mol ex_structure) G4 else Inr G4) = Inr G4"
    by simp
  note t = artifact_only_after_all_stages[of ?w "''P1''" LibraryError False ex_state ex_mol
      ex_structure G3 "residue_to_ca_atom ex_mol ex_structure" G4 G4]
  from t d have 1: "output_dir (snd (protein_molecule_graphs ?w ''P1'' False ex_state))
      = output_dir ex_state" by blast
  from t n m s b ap p d have 2: "protein_molecule_graphs ?w ''P1'' False ex_state
      = (None, say (DsspFailed ''P1'' LibraryError) ex_state)" by blast
  from d n m s 2 1 show ?thesis by (intro conjI)
qed

text \<open>
  C6. A job run with the PAE flag whose JSON file cannot be opened, cannot be decoded or
  lacks the field \<^verbatim>\<open>predicted_aligned_error\<close> in its first record, and which gets as far
  as the PAE stage (its artifact is not there yet, the structure parses, every residue has
  its CA atom), prints the error and returns without exception: nothing is written to the
  output directory, and the batch goes on with the proteins queued after it, from the state
  the job found with only the message added. A file that cannot be opened or decoded and a
  first record without the field are such errors.
\<close>

theorem pae_failure_isolated:
  assumes "output_dir st (output_file_name file_name) = None"
    and "MolFromPDBFile (inputs w file_name) = Some m"
    and "get_structure (inputs w file_name) = Inr s"
    and "wf_mol m"
    and "\<forall>res \<in> set (all_residues s). find (\<lambda>a. bp_id a = ''CA'') (child_atoms res) \<noteq> None"
    and "pae_file_error (json_load (inputs w file_name)) = Some e"
  shows "protein_molecule_graphs w file_name True st = (None, say (pae_handler file_name e) st) \<and>
         output_dir (say (pae_handler file_name e) st) = output_dir st \<and>
         run_tasks w ((file_name, True) # rest) st
           = run_tasks w rest (say (pae_handler file_name e) st) \<and>
         pae_file_error (Inl e') = Some e' \<and>
         (''predicted_aligned_error'' \<notin> fst ` set kvs \<longrightarrow>
            pae_file_error (Inr (PList (PDict kvs # records))) = Some ValueError \<and>
            pae_handler file_name ValueError = ValueErrorInFile file_name)"
proof -
  have b: "build_graph (float_str w) (inputs w file_name) file_name True
             = Aborted (pae_handler file_name e)"
    using assms(2-6) by (rule build_reaches_pae)
  have j: "protein_molecule_graphs w file_name True st = (None, say (pae_handler file_name e) st)"
    using assms(1) b by (simp add: protein_molecule_graphs_def)
  have r: "run_tasks w ((file_name, True) # rest) st
           = run_tasks w rest (say (pae_handler file_name e) st)"
    by (simp add: process_file_wrapper_def j)
  have f: "''predicted_aligned_error'' \<notin> fst ` set kvs \<longrightarrow>
            pae_file_error (Inr (PList (PDict kvs # records))) = Some ValueError \<and>
            pae_handler file_name ValueError = ValueErrorInFile file_name"
    by (simp add: pae_file_error_def get_pae_matrix_def py_getitem_def py_contains_def
          pae_handler_def)
  have "pae_file_error (Inl e') = Some e'" by (simp add: pae_file_error_def)
  with j r f show ?thesis by simp
qed

theorem pae_failure_isolated_witness:
  "output_dir ex_state (output_file_name ''P1'') = None \<and>
   MolFromPDBFile (inputs (ex_world_with ex_files_no_field) ''P1'') = Some ex_mol \<and>
   get_structure (inputs (ex_world_with ex_files_no_field) ''P1'') = Inr ex_structure \<and>
   wf_mol ex_mol \<and>
   list_all (\<lambda>res. find (\<lambda>a. bp_id a = ''CA'') (child_atoms res) \<noteq> None)
     (all_residues ex_structure) \<and>
   pae_file_error (json_load (inputs (ex_world_with ex_files_no_field) ''P1'')) = Some ValueError \<and>
   protein_molecule_graphs (ex_world_with ex_files_no_field) ''P1'' True ex_state
     = (None, say (ValueErrorInFile ''P1'') ex_state) \<and>
   run_tasks (ex_world_with ex_files_no_field) [(''P1'', True), (''P2'', True)] ex_state
     = run_tasks (ex_world_with ex_files_no_field) [(''P2'', True)]
         (say (ValueErrorInFile ''P1'') ex_state)"
proof -
  let ?w = "ex_world_with ex_files_no_field"
  have n: "output_dir ex_state (output_file_name ''P1'') = None" by (rule ex_state_empty)
  have m: "MolFromPDBFile (inputs ?w ''P1'') = Some ex_mol"
    and s: "get_structure (inputs ?w ''P1'') = Inr ex_structure"
    and e: "pae_file_error (json_load (inputs ?w ''P1'')) = Some ValueError"
    by (simp_all add: ex_inputs ex_files_fields ex_no_field)
  have h: "pae_handler ''P1'' ValueError = ValueErrorInFile ''P1''"
    by (simp add: pae_handler_def)
  from pae_failure_isolated[OF n m s ex_wf ex_all_ca e, of "[(''P2'', True)]"]
  have "protein_molecule_graphs ?w ''P1'' True ex_state
          = (None, say (ValueErrorInFile ''P1'') ex_state)"
    "run_tasks ?w [(''P1'', True), (''P2'', True)] ex_state
       = run_tasks ?w [(''P2'', True)] (say (ValueErrorInFile ''P1'') ex_state)"
    unfolding h by blast+
  with n m s ex_wf ex_all_ca_list e show ?thesis by (intro conjI)
qed

text \<open>
  C2 on the input directory whose first structure file cannot be parsed: line 27 raises
  AttributeError, the exception leaves the job, and \<^verbatim>\<open>executor.map\<close> raises it in
  \<^verbatim>\<open>alpha_nx\<close> where the job's result is due, so the batch ends with the exception
  instead of going on with the second protein.
\<close>

theorem parse_failure_ends_batch:
  "MolFromPDBFile (inputs (ex_world_with ex_files_unparsable) ''P1'') = None \<and>
   tasks (ex_world_with ex_files_unparsable) False ex_state = [(''P1'', False), (''P2'', False)] \<and>
   protein_molecule_graphs (ex_world_with ex_files_unparsable) ''P1'' False ex_state
     = (Some AttributeError, ex_state) \<and>
   alpha_nx (ex_world_with ex_files_unparsable) False ex_state = Inl AttributeError"
proof -
  let ?w = "ex_world_with ex_files_unparsable"
  have m: "MolFromPDBFile (inputs ?w ''P1'') = None" by (simp add: ex_inputs ex_files_fields)
  then have "build_graph (float_str ?w) (inputs ?w ''P1'') ''P1'' False = Raised AttributeError"
    by (rule build_unparsable)
  then have j: "protein_molecule_graphs ?w ''P1'' False ex_state = (Some AttributeError, ex_state)"
    by (simp add: protein_molecule_graphs_def ex_state_empty)
  have "alpha_nx ?w False ex_state = Inl AttributeError"
    by (simp add: alpha_nx_def ex_tasks process_file_wrapper_def j)
  with m j ex_tasks show ?thesis by simp
qed

text \<open>
  C1. A job whose artifact is already in the output directory prints that it exists and
  returns with the output directory as it was, whatever the input files are, since nothing
  is parsed before the check; no job and no batch changes or removes a file the output
  directory holds. Consequently, when a batch over listed names without separator has
  returned, a second batch on the same input from the state the first one left returns
  with the same output directory; its tasks are proteins without artifact, each of them
  aborted in the first run and aborts again, so no graph is built a second time.
\<close>

theorem batch_idempotent:
  assumes "\<forall>f \<in> set (listdir w). CHR ''/'' \<notin> set f"
    and "alpha_nx w include_pae st = Inr st'"
  shows "(output_dir s0 (output_file_name file_name) \<noteq> None \<longrightarrow>
            protein_molecule_graphs w0 file_name ip s0
              = (None, say (AlreadyExists (output_file_name file_name)) s0) \<and>
            output_dir (say (AlreadyExists (output_file_name file_name)) s0) = output_dir s0) \<and>
         (output_dir s0 f = Some a \<longrightarrow>
            output_dir (snd (protein_molecule_graphs w0 file_name ip s0)) f = Some a) \<and>
         (\<forall>f a. output_dir st f = Some a \<longrightarrow> output_dir st' f = Some a) \<and>
         (\<exists>st''. alpha_nx w include_pae st' = Inr st'' \<and> output_dir st'' = output_dir st') \<and>
         (\<forall>t \<in> set (tasks w include_pae st').
            t \<in> set (tasks w include_pae st) \<and>
            output_dir st' (output_file_name (fst t)) = None \<and>
            (\<exists>msg. build_graph (float_str w) (inputs w (fst t)) (fst t) include_pae
                     = Aborted msg))"
proof -
  have run: "run_tasks w (tasks w include_pae st) st = Inr st'"
    using assms(2) by (simp add: alpha_nx_def)
  have keeps: "output_dir st' f = Some a" if "output_dir st f = Some a" for f a
    using run that by (rule run_tasks_keeps)
  have second: "t \<in> set (tasks w include_pae st) \<and>
      output_dir st' (output_file_name (fst t)) = None \<and> snd t = include_pae \<and>
      (\<exists>msg. build_graph (float_str w) (inputs w (fst t)) (fst t) include_pae = Aborted msg)"
    if "t \<in> set (tasks w include_pae st')" for t
  proof -
    from that obtain nm where
      nm: "nm \<in> set (listdir w)" "endswith nm ''.pdb''" and
      absent: "output_dir st' (splitext_root nm @ ''.pkl'') = None" and
      t: "t = (splitext_root nm, include_pae)"
      unfolding tasks_member by blast
    from nm(1) assms(1) have "CHR ''/'' \<notin> set nm" by blast
    then have name: "output_file_name (splitext_root nm) = splitext_root nm @ ''.pkl''"
      by (rule task_artifact)
    have "output_dir st (splitext_root nm @ ''.pkl'') = None"
    proof (cases "output_dir st (splitext_root nm @ ''.pkl'')")
      case None
      then show ?thesis .
    next
      case (Some a)
      from keeps[OF this] absent show ?thesis by simp
    qed
    with nm t have first: "t \<in> set (tasks w include_pae st)"
      unfolding tasks_member by blast
    from absent name have none: "output_dir st' (output_file_name (splitext_root nm)) = None"
      by simp
    from run first[unfolded t] none
    have "\<exists>msg. build_graph (float_str w) (inputs w (splitext_root nm)) (splitext_root nm)
              include_pae = Aborted msg"
      by (rule run_tasks_absent)
    with first none t show ?thesis by simp
  qed
  have "\<exists>st''. run_tasks w (tasks w include_pae st') st' = Inr st'' \<and>
          output_dir st'' = output_dir st'"
  proof (rule run_tasks_aborted)
    fix t assume "t \<in> set (tasks w include_pae st')"
    from second[OF this]
    show "output_dir st' (output_file_name (fst t)) = None \<and>
      (\<exists>msg. build_graph (float_str w) (inputs w (fst t)) (fst t) (snd t) = Aborted msg)"
      by simp
  qed
  then have again: "\<exists>st''. alpha_nx w include_pae st' = Inr st'' \<and>
      output_dir st'' = output_dir st'"
    by (simp add: alpha_nx_def)
  have skip: "output_dir s0 (output_file_name file_name) \<noteq> None \<longrightarrow>
            protein_molecule_graphs w0 file_name ip s0
              = (None, say (AlreadyExists (output_file_name file_name)) s0) \<and>
            output_dir (say (AlreadyExists (output_file_name file_name)) s0) = output_dir s0"
    by (simp add: protein_molecule_graphs_def)
  have kept: "output_dir s0 f = Some a \<longrightarrow>
            output_dir (snd (protein_molecule_graphs w0 file_name ip s0)) f = Some a"
    using job_keeps by blast
  from skip kept keeps again second show ?thesis by blast
qed

theorem batch_idempotent_witness:
  "list_all (\<lambda>f. CHR ''/'' \<notin> set f) (listdir (ex_world_with ex_files_no_dssp)) \<and>
   (\<exists>st'. alpha_nx (ex_world_with ex_files_no_dssp) False ex_state = Inr st' \<and>
      output_dir st' ''P1.pkl'' = None \<and> output_dir st' ''P2.pkl'' \<noteq> None \<and>
      printed st' = [DsspFailed ''P1'' LibraryError] \<and>
      tasks (ex_world_with ex_files_no_dssp) False st' = [(''P1'', False)] \<and>
      (\<exists>st''. alpha_nx (ex_world_with ex_files_no_dssp) False st' = Inr st'' \<and>
         output_dir st'' = output_dir st'))"
proof -
  let ?w = "ex_world_with ex_files_no_dssp"
  have l: "\<forall>f \<in> set (listdir ?w). CHR ''/'' \<notin> set f"
    by (simp add: ex_world_with_def)
  from plddt_ok[OF ex_wf ex_all_ca] obtain G3 G4 where
    "backbone ex_mol ex_structure = Inr (G3, residue_to_ca_atom ex_mol ex_structure)"
    "add_plddt ex_structure (atoms ex_mol) G3 = Inr G4"
    by blast
  then have "build_graph (float_str ?w) (inputs ?w ''P1'') ''P1'' False
      = Aborted (DsspFailed ''P1'' LibraryError)"
    by (intro build_reaches_dssp[where ?G5.0 = G4]) (simp_all add: ex_inputs ex_files_fields)
  then have j1: "protein_molecule_graphs ?w ''P1'' False ex_state
      = (None, say (DsspFailed ''P1'' LibraryError) ex_state)"
    by (simp add: protein_molecule_graphs_def ex_state_empty)
  from ex_build obtain G7 where
    "build_graph (float_str ?w) (inputs ?w ''P2'') ''P2'' False = Built G7"
    unfolding ex_inputs by blast
  then have j2: "protein_molecule_graphs ?w ''P2'' False (say (DsspFailed ''P1'' LibraryError) ex_state)
      = (None, (say (DsspFailed ''P1'' LibraryError) ex_state)
           \<lparr>output_dir := (output_dir (say (DsspFailed ''P1'' LibraryError) ex_state))
              (output_file_name ''P2'' \<mapsto> Pickle G7)\<rparr>)"
    by (simp add: protein_molecule_graphs_def ex_state_empty)
  define st' where "st' = (say (DsspFailed ''P1'' LibraryError) ex_state)
           \<lparr>output_dir := (output_dir (say (DsspFailed ''P1'' LibraryError) ex_state))
              (output_file_name ''P2'' \<mapsto> Pickle G7)\<rparr>"
  have run: "alpha_nx ?w False ex_state = Inr st'"
    by (simp add: alpha_nx_def ex_tasks process_file_wrapper_def j1 j2 st'_def)
  have o: "output_dir st' ''P1.pkl'' = None" "output_dir st' ''P2.pkl'' \<noteq> None"
    "printed st' = [DsspFailed ''P1'' LibraryError]"
    by (simp_all add: st'_def ex_names ex_state_def say_def)
  have t: "tasks ?w False st' = [(''P1'', False)]"
    by (simp add: tasks_def ex_world_with_def ex_names processed_def endswith_def o)
  from batch_idempotent[OF l run]
  have "\<exists>st''. alpha_nx ?w False st' = Inr st'' \<and> output_dir st'' = output_dir st'"
    by blast
  with run o t have "\<exists>st'. alpha_nx ?w False ex_state = Inr st' \<and>
      output_dir st' ''P1.pkl'' = None \<and> output_dir st' ''P2.pkl'' \<noteq> None \<and>
      printed st' = [DsspFailed ''P1'' LibraryError] \<and>
      tasks ?w False st' = [(''P1'', False)] \<and>
      (\<exists>st''. alpha_nx ?w False st' = Inr st'' \<and> output_dir st'' = output_dir st')"
    by blast
  moreover have "list_all (\<lambda>f. CHR ''/'' \<notin> set f) (listdir ?w)"
    using l by (simp add: list_all_iff)
  ultimately show ?thesis by (intro conjI)
qed

end
